theory Spec2Isabelle
  imports Complex_Main "HOL-Library.Sublist"
begin

section \<open>JavaScript values used by the analytics layer\<close>

text \<open>
  A JavaScript number is modelled as an exact rational extended with the three
  special values of IEEE arithmetic that the guards of the source test for
  (\<open>Infinity\<close>, \<open>-Infinity\<close>, \<open>NaN\<close>). Rounding and the sign of zero are
  not modelled: every finite result is the exact quotient, sum or product.
\<close>

datatype jsnum = Num rat | PosInf | NegInf | NaN

fun jneg :: "jsnum \<Rightarrow> jsnum" where
  "jneg (Num a) = Num (- a)"
| "jneg PosInf = NegInf"
| "jneg NegInf = PosInf"
| "jneg NaN = NaN"

fun jadd :: "jsnum \<Rightarrow> jsnum \<Rightarrow> jsnum" where
  "jadd NaN _ = NaN"
| "jadd _ NaN = NaN"
| "jadd (Num a) (Num b) = Num (a + b)"
| "jadd PosInf NegInf = NaN"
| "jadd NegInf PosInf = NaN"
| "jadd PosInf _ = PosInf"
| "jadd _ PosInf = PosInf"
| "jadd NegInf _ = NegInf"
| "jadd _ NegInf = NegInf"

definition jsub :: "jsnum \<Rightarrow> jsnum \<Rightarrow> jsnum" where
  "jsub a b = jadd a (jneg b)"

fun jmul :: "jsnum \<Rightarrow> jsnum \<Rightarrow> jsnum" where
  "jmul NaN _ = NaN"
| "jmul _ NaN = NaN"
| "jmul (Num a) (Num b) = Num (a * b)"
| "jmul PosInf (Num b) = (if b = 0 then NaN else if 0 < b then PosInf else NegInf)"
| "jmul NegInf (Num b) = (if b = 0 then NaN else if 0 < b then NegInf else PosInf)"
| "jmul (Num a) PosInf = (if a = 0 then NaN else if 0 < a then PosInf else NegInf)"
| "jmul (Num a) NegInf = (if a = 0 then NaN else if 0 < a then NegInf else PosInf)"
| "jmul PosInf PosInf = PosInf"
| "jmul NegInf NegInf = PosInf"
| "jmul PosInf NegInf = NegInf"
| "jmul NegInf PosInf = NegInf"

fun jdiv :: "jsnum \<Rightarrow> jsnum \<Rightarrow> jsnum" where
  "jdiv NaN _ = NaN"
| "jdiv _ NaN = NaN"
| "jdiv (Num a) (Num b) =
     (if b = 0 then (if a = 0 then NaN else if 0 < a then PosInf else NegInf)
      else Num (a / b))"
| "jdiv (Num a) PosInf = Num 0"
| "jdiv (Num a) NegInf = Num 0"
| "jdiv PosInf (Num b) = (if b < 0 then NegInf else PosInf)"
| "jdiv NegInf (Num b) = (if b < 0 then PosInf else NegInf)"
| "jdiv PosInf PosInf = NaN"
| "jdiv PosInf NegInf = NaN"
| "jdiv NegInf PosInf = NaN"
| "jdiv NegInf NegInf = NaN"

fun isNaN :: "jsnum \<Rightarrow> bool" where
  "isNaN NaN = True"
| "isNaN _ = False"

fun isFinite :: "jsnum \<Rightarrow> bool" where
  "isFinite (Num a) = True"
| "isFinite _ = False"

text \<open>
  \<open>parseFloat\<close> is the platform's parser; the functions below take it as the
  parameter \<open>parseFloat\<close>. The concrete runs use \<open>parseDecimal\<close>, which agrees
  with it on the strings that consist of decimal digits only and yields \<open>NaN\<close>
  on every other string.
\<close>

definition digit_value :: "char \<Rightarrow> nat option" where
  "digit_value c =
     (let n = (of_char c :: nat) in if 48 \<le> n \<and> n \<le> 57 then Some (n - 48) else None)"

fun digits_value :: "nat \<Rightarrow> string \<Rightarrow> nat option" where
  "digits_value acc [] = Some acc"
| "digits_value acc (c # cs) =
     (case digit_value c of
        None \<Rightarrow> None
      | Some d \<Rightarrow> digits_value (10 * acc + d) cs)"

definition parseDecimal :: "string \<Rightarrow> jsnum" where
  "parseDecimal s =
     (if s = [] then NaN
      else case digits_value 0 s of None \<Rightarrow> NaN | Some n \<Rightarrow> Num (of_nat n))"

section \<open>Percent changes\<close>

text \<open>
  \<open>get2DayPercentChange(valueNow, value24HoursAgo = '0', value48HoursAgo = '0')\<close>.
  An omitted (\<open>undefined\<close>) argument is \<open>None\<close> and takes the default \<open>'0'\<close>.
  \<open>parseFloat(x.toString())\<close> of a number \<open>x\<close> is \<open>x\<close> itself.
\<close>

definition get2DayPercentChange ::
  "(string \<Rightarrow> jsnum) \<Rightarrow> string \<Rightarrow> string option \<Rightarrow> string option \<Rightarrow> jsnum \<times> jsnum" where
  "get2DayPercentChange parseFloat valueNow value24HoursAgo value48HoursAgo =
     (let v24 = (case value24HoursAgo of None \<Rightarrow> ''0'' | Some s \<Rightarrow> s);
          v48 = (case value48HoursAgo of None \<Rightarrow> ''0'' | Some s \<Rightarrow> s);
          currentChange = jsub (parseFloat valueNow) (parseFloat v24);
          previousChange = jsub (parseFloat v24) (parseFloat v48);
          adjustedPercentChange =
            jmul (jdiv (jsub currentChange previousChange) previousChange) (Num 100)
      in if isNaN adjustedPercentChange \<or> \<not> isFinite adjustedPercentChange
         then (currentChange, Num 0)
         else (currentChange, adjustedPercentChange))"


section \<open>The per-account cache and its reducer\<close>

datatype error = QueryError | TypeError | UnexpectedAction string

definition UPDATE_TRANSACTIONS :: string where
  "UPDATE_TRANSACTIONS = ''UPDATE_TRANSACTIONS''"

definition UPDATE_POSITIONS :: string where
  "UPDATE_POSITIONS = ''UPDATE_POSITIONS ''"

definition UPDATE_MINING_POSITIONS :: string where
  "UPDATE_MINING_POSITIONS = ''UPDATE_MINING_POSITIONS''"

definition UPDATE_USER_POSITION_HISTORY :: string where
  "UPDATE_USER_POSITION_HISTORY = ''UPDATE_USER_POSITION_HISTORY''"

definition UPDATE_USER_PAIR_RETURNS :: string where
  "UPDATE_USER_PAIR_RETURNS = ''UPDATE_USER_PAIR_RETURNS''"

definition TRANSACTIONS_KEY :: string where
  "TRANSACTIONS_KEY = ''TRANSACTIONS_KEY''"

definition POSITIONS_KEY :: string where
  "POSITIONS_KEY = ''POSITIONS_KEY''"

definition MINING_POSITIONS_KEY :: string where
  "MINING_POSITIONS_KEY = ''MINING_POSITIONS_KEY''"

definition USER_SNAPSHOTS :: string where
  "USER_SNAPSHOTS = ''USER_SNAPSHOTS''"

definition USER_PAIR_RETURNS_KEY :: string where
  "USER_PAIR_RETURNS_KEY = ''USER_PAIR_RETURNS_KEY''"

text \<open>
  The state is an object keyed by account; each account's entry is an object
  keyed by the five cache keys. The value under \<open>USER_PAIR_RETURNS_KEY\<close> is
  itself an object keyed by pair address (\<open>Returns\<close>); every other value is
  opaque data (\<open>Data\<close>).
\<close>

datatype 'v cache_value = Data 'v | Returns "string \<Rightarrow> 'v option"

type_synonym 'v account_cache = "string \<Rightarrow> 'v cache_value option"

type_synonym 'v user_state = "string \<Rightarrow> 'v account_cache option"

record 'v payload =
  account :: string
  transactions :: 'v
  positions :: 'v
  miningPositions :: 'v
  historyData :: 'v
  payload_pairAddress :: string
  payload_data :: 'v

text \<open>\<open>...state?.[account]\<close>: the own properties of the account's entry, none when it is absent.\<close>

definition spread_account :: "'v user_state \<Rightarrow> string \<Rightarrow> 'v account_cache" where
  "spread_account state a = (case state a of None \<Rightarrow> Map.empty | Some c \<Rightarrow> c)"

text \<open>
  \<open>...state?.[account]?.[USER_PAIR_RETURNS_KEY]\<close>. The reducer only ever stores a
  \<open>Returns\<close> object under that key; opaque data there is taken to have no own
  properties.
\<close>

definition spread_returns :: "'v user_state \<Rightarrow> string \<Rightarrow> string \<Rightarrow> 'v option" where
  "spread_returns state a =
     (case spread_account state a USER_PAIR_RETURNS_KEY of
        Some (Returns m) \<Rightarrow> m
      | _ \<Rightarrow> Map.empty)"

definition reducer :: "'v user_state \<Rightarrow> string \<times> 'v payload \<Rightarrow> error + 'v user_state" where
  "reducer state action =
     (let type = fst action; p = snd action in
      if type = UPDATE_TRANSACTIONS then
        Inr (state(account p \<mapsto>
               (spread_account state (account p))(TRANSACTIONS_KEY \<mapsto> Data (transactions p))))
      else if type = UPDATE_POSITIONS then
        Inr (state(account p \<mapsto>
               (spread_account state (account p))(POSITIONS_KEY \<mapsto> Data (positions p))))
      else if type = UPDATE_MINING_POSITIONS then
        Inr (state(account p \<mapsto>
               (spread_account state (account p))(MINING_POSITIONS_KEY \<mapsto> Data (miningPositions p))))
      else if type = UPDATE_USER_POSITION_HISTORY then
        Inr (state(account p \<mapsto>
               (spread_account state (account p))(USER_SNAPSHOTS \<mapsto> Data (historyData p))))
      else if type = UPDATE_USER_PAIR_RETURNS then
        Inr (state(account p \<mapsto>
               (spread_account state (account p))(USER_PAIR_RETURNS_KEY \<mapsto>
                  Returns ((spread_returns state (account p))(payload_pairAddress p \<mapsto> payload_data p)))))
      else Inl (UnexpectedAction type))"

text \<open>The cache key an accepted action type writes.\<close>

definition target_key :: "string \<Rightarrow> string" where
  "target_key type =
     (if type = UPDATE_TRANSACTIONS then TRANSACTIONS_KEY
      else if type = UPDATE_POSITIONS then POSITIONS_KEY
      else if type = UPDATE_MINING_POSITIONS then MINING_POSITIONS_KEY
      else if type = UPDATE_USER_POSITION_HISTORY then USER_SNAPSHOTS
      else USER_PAIR_RETURNS_KEY)"

section \<open>Paginated queries\<close>

text \<open>
  A response object is the list of its own properties in insertion order, the
  keys distinct. \<open>obj_set\<close> is a property assignment (an existing key keeps its
  place), \<open>obj_spread a b\<close> is \<open>{...a, ...b}\<close>.
\<close>

fun obj_set :: "'k \<Rightarrow> 'v \<Rightarrow> ('k \<times> 'v) list \<Rightarrow> ('k \<times> 'v) list" where
  "obj_set k v [] = [(k, v)]"
| "obj_set k v ((k', v') # ps) = (if k' = k then (k, v) # ps else (k', v') # obj_set k v ps)"

definition obj_spread :: "('k \<times> 'v) list \<Rightarrow> ('k \<times> 'v) list \<Rightarrow> ('k \<times> 'v) list" where
  "obj_spread a b = fold (\<lambda>kv acc. obj_set (fst kv) (snd kv) acc) b a"

definition Object_keys :: "('k \<times> 'v) list \<Rightarrow> 'k list" where
  "Object_keys obj = map fst obj"

text \<open>\<open>list.slice(start, end)\<close> for \<open>0 \<le> start\<close> and \<open>0 \<le> end\<close>.\<close>

definition slice :: "'a list \<Rightarrow> nat \<Rightarrow> nat \<Rightarrow> 'a list" where
  "slice xs start end = take (end - start) (drop start xs)"

text \<open>
  \<open>splitQuery(query, localClient, vars, list, skipCount)\<close>. The backend
  \<open>localClient\<close> receives the number of requests issued before this one and the
  slice the query is built from, and answers with the response's \<open>data\<close> object
  or rejects. The loop also records the slices it has sent, in order; the result
  pairs that record with the merged data, or with the error that aborted the
  accumulation. A loop that never ends is \<open>None\<close>.
\<close>

partial_function (option) splitQuery_loop ::
  "(nat \<Rightarrow> 'a list \<Rightarrow> error + ('k \<times> 'v) list) \<Rightarrow> 'a list \<Rightarrow> nat \<Rightarrow>
   ('k \<times> 'v) list \<Rightarrow> nat \<Rightarrow> 'a list list \<Rightarrow> ('a list list \<times> (error + ('k \<times> 'v) list)) option" where
  "splitQuery_loop localClient list skipCount fetchedData skip sent =
     (let end = (if skip + skipCount < length list then skip + skipCount else length list);
          sliced = slice list skip end
      in case localClient (length sent) sliced of
           Inl e \<Rightarrow> Some (sent @ [sliced], Inl e)
         | Inr result_data \<Rightarrow>
             if length (Object_keys result_data) < skipCount \<or> skip + skipCount > length list
             then Some (sent @ [sliced], Inr (obj_spread fetchedData result_data))
             else splitQuery_loop localClient list skipCount
                    (obj_spread fetchedData result_data) (skip + skipCount) (sent @ [sliced]))"

declare splitQuery_loop.simps [code]

definition splitQuery ::
  "(nat \<Rightarrow> 'a list \<Rightarrow> error + ('k \<times> 'v) list) \<Rightarrow> 'a list \<Rightarrow> nat \<Rightarrow>
   ('a list list \<times> (error + ('k \<times> 'v) list)) option" where
  "splitQuery localClient list skipCount = splitQuery_loop localClient list skipCount [] 0 []"

text \<open>The slice that request number \<open>j\<close> carries, and the size of the page it gets back.\<close>

definition window :: "'a list \<Rightarrow> nat \<Rightarrow> nat \<Rightarrow> 'a list" where
  "window list skipCount j = take skipCount (drop (j * skipCount) list)"

definition page_size ::
  "(nat \<Rightarrow> 'a list \<Rightarrow> error + ('k \<times> 'v) list) \<Rightarrow> 'a list \<Rightarrow> nat \<Rightarrow> nat \<Rightarrow> nat option" where
  "page_size localClient list skipCount j =
     (case localClient j (window list skipCount j) of
        Inl e \<Rightarrow> None
      | Inr result_data \<Rightarrow> Some (length (Object_keys result_data)))"

text \<open>A backend that answers every request with one entry per requested item.\<close>

definition echoClient :: "nat \<Rightarrow> nat list \<Rightarrow> error + (nat \<times> nat) list" where
  "echoClient k sliced = Inr (map (\<lambda>x. (x, x)) sliced)"

section \<open>Blocks and share values\<close>

record block =
  block_timestamp :: jsnum
  number :: jsnum

text \<open>\<open>row.split('t')[1]\<close>: the text between the first and the second \<open>t\<close>, \<open>None\<close> for \<open>undefined\<close>.\<close>

definition split_t_1 :: "string \<Rightarrow> string option" where
  "split_t_1 row =
     (case dropWhile (\<lambda>c. c \<noteq> CHR ''t'') row of
        [] \<Rightarrow> None
      | _ # rest \<Rightarrow> Some (takeWhile (\<lambda>c. c \<noteq> CHR ''t'') rest))"

text \<open>
  The loop of \<open>getBlocksFromTimestamps\<close> over the merged response: each key maps
  to the \<open>number\<close> fields of the blocks found for it. \<open>parseInt\<close> is the platform's
  parser, a parameter; \<open>parseInt(undefined)\<close> parses the text \<open>undefined\<close>.
\<close>

fun blocks_loop :: "(string \<Rightarrow> jsnum) \<Rightarrow> (string \<times> string list) list \<Rightarrow> block list \<Rightarrow> block list" where
  "blocks_loop parseInt [] blocks = blocks"
| "blocks_loop parseInt ((t, found) # rest) blocks =
     (case found of
        [] \<Rightarrow> blocks_loop parseInt rest blocks
      | n # _ \<Rightarrow>
          blocks_loop parseInt rest
            (blocks @ [\<lparr>block_timestamp =
                          parseInt (case split_t_1 t of None \<Rightarrow> ''undefined'' | Some s \<Rightarrow> s),
                        number = parseInt n\<rparr>]))"

text \<open>
  \<open>getBlocksFromTimestamps(timestamps?, skipCount)\<close>, with the slices requested
  from the block backend beside the result. An omitted \<open>timestamps\<close> (\<open>None\<close>)
  fails on \<open>list.length\<close> inside \<open>splitQuery\<close> before any request.
\<close>

definition getBlocksFromTimestamps ::
  "(nat \<Rightarrow> nat list \<Rightarrow> error + (string \<times> string list) list) \<Rightarrow> (string \<Rightarrow> jsnum) \<Rightarrow>
   nat list option \<Rightarrow> nat \<Rightarrow> (nat list list \<times> (error + block list)) option" where
  "getBlocksFromTimestamps blockClient parseInt timestamps skipCount =
     (case timestamps of
        None \<Rightarrow> Some ([], Inl TypeError)
      | Some ts \<Rightarrow>
          if length ts = 0 then Some ([], Inr [])
          else (case splitQuery blockClient ts skipCount of
                  None \<Rightarrow> None
                | Some (sent, Inl e) \<Rightarrow> Some (sent, Inl e)
                | Some (sent, Inr fetchedData) \<Rightarrow>
                    Some (sent, Inr (blocks_loop parseInt fetchedData []))))"

definition getTimestampRange :: "nat \<Rightarrow> nat \<Rightarrow> nat \<Rightarrow> nat list" where
  "getTimestampRange timestamp_from period_length periods =
     map (\<lambda>i. timestamp_from + i * period_length) [0..<periods + 1]"

record ShareValueFragment =
  f_reserveUSD :: string
  f_totalSupply :: string
  f_reserve0 :: string
  f_reserve1 :: string
  f_token0_derivedCUSD :: "string option"
  f_token1_derivedCUSD :: "string option"

record ShareValueSnapshot =
  sv_timestamp :: jsnum
  sharePriceUsd :: jsnum
  sv_totalSupply :: string
  reserve0 :: string
  reserve1 :: string
  sv_reserveUSD :: string
  token0DerivedCUSD :: "string option"
  token1DerivedCUSD :: "string option"
  roiUsd :: jsnum
  token0PriceUSD :: jsnum
  token1PriceUSD :: jsnum

text \<open>
  The loop of \<open>getShareValueOverTime\<close> over the rows of the share-value
  response; a row's state is \<open>None\<close> when the backend has none for that block.
  \<open>toFloat\<close> (of \<open>utils/typeAssertions\<close>) is a parameter.
\<close>

fun values_loop ::
  "(string \<Rightarrow> jsnum) \<Rightarrow> (string option \<Rightarrow> jsnum) \<Rightarrow> (string \<times> ShareValueFragment option) list \<Rightarrow>
   ShareValueSnapshot list \<Rightarrow> ShareValueSnapshot list" where
  "values_loop parseInt toFloat [] values = values"
| "values_loop parseInt toFloat ((row, None) # rest) values =
     values_loop parseInt toFloat rest values"
| "values_loop parseInt toFloat ((row, Some d) # rest) values =
     (case split_t_1 row of
        None \<Rightarrow> values_loop parseInt toFloat rest values
      | Some timestamp \<Rightarrow>
          if timestamp = [] then values_loop parseInt toFloat rest values
          else
            let price = jdiv (toFloat (Some (f_reserveUSD d))) (toFloat (Some (f_totalSupply d)))
            in values_loop parseInt toFloat rest
                 (values @
                  [\<lparr>sv_timestamp = parseInt timestamp,
                    sharePriceUsd = price,
                    sv_totalSupply = f_totalSupply d,
                    reserve0 = f_reserve0 d,
                    reserve1 = f_reserve1 d,
                    sv_reserveUSD = f_reserveUSD d,
                    token0DerivedCUSD = f_token0_derivedCUSD d,
                    token1DerivedCUSD = f_token1_derivedCUSD d,
                    roiUsd = (case values of
                                [] \<Rightarrow> Num 1
                              | v0 # _ \<Rightarrow> jdiv price (sharePriceUsd v0)),
                    token0PriceUSD = toFloat (f_token0_derivedCUSD d),
                    token1PriceUSD = toFloat (f_token1_derivedCUSD d)\<rparr>]))"

text \<open>
  \<open>getShareValueOverTime(pairAddress, timestamps)\<close>. \<open>utcSevenDaysBack\<close> is the
  clock reading \<open>dayjs().subtract(8, 'day').unix()\<close>; \<open>client\<close> answers the
  share-value query for the pair and the resolved blocks.
\<close>

definition getShareValueOverTime ::
  "(nat \<Rightarrow> nat list \<Rightarrow> error + (string \<times> string list) list) \<Rightarrow>
   (string \<Rightarrow> block list \<Rightarrow> error + (string \<times> ShareValueFragment option) list) \<Rightarrow>
   (string \<Rightarrow> jsnum) \<Rightarrow> (string option \<Rightarrow> jsnum) \<Rightarrow> nat \<Rightarrow>
   string \<Rightarrow> nat list option \<Rightarrow> (error + ShareValueSnapshot list) option" where
  "getShareValueOverTime blockClient client parseInt toFloat utcSevenDaysBack pairAddress timestamps =
     (let ts = (case timestamps of
                  None \<Rightarrow> getTimestampRange utcSevenDaysBack 86400 7
                | Some given \<Rightarrow> given)
      in case getBlocksFromTimestamps blockClient parseInt (Some ts) 500 of
           None \<Rightarrow> None
         | Some (sent, Inl e) \<Rightarrow> Some (Inl e)
         | Some (sent, Inr blocks) \<Rightarrow>
             (case client pairAddress blocks of
                Inl e \<Rightarrow> Some (Inl e)
              | Inr rows \<Rightarrow> Some (Inr (values_loop parseInt toFloat rows []))))"

section \<open>The daily liquidity chart\<close>

record snapshot =
  timestamp :: nat
  pair_id :: string
  liquidityTokenBalance :: string

record pairDayData =
  date :: nat
  pairAddress :: string
  totalSupply :: string
  reserveUSD :: string

record ownership =
  lpTokenBalance :: string
  own_timestamp :: nat

record chartEntry =
  entry_date :: nat
  valueUSD :: jsnum

text \<open>
  Timestamps and dates are whole, non-negative seconds, so \<open>Math.floor(x / 86400)\<close> and
  \<open>parseInt((x / 86400).toString())\<close> are both \<open>x div 86400\<close>.
\<close>

definition initialDayIndex :: "nat \<Rightarrow> nat" where
  "initialDayIndex startDateTimestamp =
     (if startDateTimestamp \<noteq> 0 then startDateTimestamp div 86400 else 0)"

text \<open>The \<open>if\<close> that follows the sort: \<open>first\<close> is \<open>sortedPositions[0]\<close>.\<close>

definition bumpDayIndex :: "nat \<Rightarrow> snapshot \<Rightarrow> nat" where
  "bumpDayIndex dayIndex first =
     (if timestamp first > dayIndex then timestamp first div 86400 else dayIndex)"

function dayTimestamps_loop :: "nat \<Rightarrow> nat \<Rightarrow> nat list \<Rightarrow> nat list" where
  "dayTimestamps_loop dayIndex currentDayIndex dayTimestamps =
     (if dayIndex < currentDayIndex
      then dayTimestamps_loop (dayIndex + 1) currentDayIndex (dayTimestamps @ [dayIndex * 86400])
      else dayTimestamps)"
  by pat_completeness auto
termination
  by (relation "measure (\<lambda>(dayIndex, currentDayIndex, dayTimestamps). currentDayIndex - dayIndex)") auto

declare dayTimestamps_loop.simps [simp del]

definition relevantPositions :: "snapshot list \<Rightarrow> nat \<Rightarrow> snapshot list" where
  "relevantPositions history dayTimestamp =
     (let timestampCeiling = dayTimestamp + 86400
      in filter (\<lambda>s. timestamp s < timestampCeiling \<and> timestamp s > dayTimestamp) history)"

text \<open>The body of the loop over \<open>relevantPositions\<close>: its two \<open>if\<close>s in order.\<close>

definition updateOwnership :: "(string \<times> ownership) list \<Rightarrow> snapshot \<Rightarrow> (string \<times> ownership) list" where
  "updateOwnership ownershipPerPair position =
     (let entry = \<lparr>lpTokenBalance = liquidityTokenBalance position,
                   own_timestamp = timestamp position\<rparr>;
          added = (case map_of ownershipPerPair (pair_id position) of
                     None \<Rightarrow> obj_set (pair_id position) entry ownershipPerPair
                   | Some _ \<Rightarrow> ownershipPerPair)
      in case map_of added (pair_id position) of
           Some known \<Rightarrow>
             if own_timestamp known < timestamp position
             then obj_set (pair_id position) entry added
             else added
         | None \<Rightarrow> added)"

definition ownershipForDay ::
  "snapshot list \<Rightarrow> (string \<times> ownership) list \<Rightarrow> nat \<Rightarrow> (string \<times> ownership) list" where
  "ownershipForDay history ownershipPerPair dayTimestamp =
     foldl updateOwnership ownershipPerPair (relevantPositions history dayTimestamp)"

text \<open>
  The scan for one pair: \<open>mostRecent\<close> starts as \<open>dayDatasForThisPair[0]\<close>
  (\<open>undefined\<close>, here \<open>None\<close>, when the pair has no record, and then the loop
  body never runs).
\<close>

definition mostRecentDayData :: "pairDayData list \<Rightarrow> nat \<Rightarrow> string \<Rightarrow> pairDayData option" where
  "mostRecentDayData pairDayDatas dayTimestamp address =
     (let dayDatasForThisPair = filter (\<lambda>dayData. pairAddress dayData = address) pairDayDatas
      in case dayDatasForThisPair of
           [] \<Rightarrow> None
         | first # _ \<Rightarrow>
             Some (foldl (\<lambda>mostRecent dayData.
                            if date dayData < dayTimestamp \<and> date dayData > date mostRecent
                            then dayData else mostRecent)
                         first dayDatasForThisPair))"

text \<open>The reducer that sums the day's USD value.\<close>

definition addPairUSD ::
  "(string \<Rightarrow> jsnum) \<Rightarrow> (string \<times> ownership) list \<Rightarrow> jsnum \<Rightarrow> pairDayData option \<Rightarrow> jsnum" where
  "addPairUSD parseFloat ownershipPerPair totalUSD dayData =
     (case dayData of
        Some d \<Rightarrow>
          jadd totalUSD
            (case map_of ownershipPerPair (pairAddress d) of
               Some own \<Rightarrow>
                 jmul (jdiv (parseFloat (lpTokenBalance own)) (parseFloat (totalSupply d)))
                      (parseFloat (reserveUSD d))
             | None \<Rightarrow> Num 0)
      | None \<Rightarrow> totalUSD)"

definition dailyUSD ::
  "(string \<Rightarrow> jsnum) \<Rightarrow> pairDayData list \<Rightarrow> (string \<times> ownership) list \<Rightarrow> nat \<Rightarrow> jsnum" where
  "dailyUSD parseFloat pairDayDatas ownershipPerPair dayTimestamp =
     (let relavantDayDatas =
            map (mostRecentDayData pairDayDatas dayTimestamp) (Object_keys ownershipPerPair)
      in foldl (addPairUSD parseFloat ownershipPerPair) (Num 0) relavantDayDatas)"

text \<open>The loop over \<open>dayTimestamps\<close>, threading \<open>ownershipPerPair\<close> and \<open>formattedHistory\<close>.\<close>

fun chart_loop ::
  "(string \<Rightarrow> jsnum) \<Rightarrow> snapshot list \<Rightarrow> pairDayData list \<Rightarrow> nat list \<Rightarrow>
   (string \<times> ownership) list \<Rightarrow> chartEntry list \<Rightarrow> chartEntry list" where
  "chart_loop parseFloat history pairDayDatas [] ownershipPerPair formattedHistory = formattedHistory"
| "chart_loop parseFloat history pairDayDatas (dayTimestamp # rest) ownershipPerPair formattedHistory =
     (let owned = ownershipForDay history ownershipPerPair dayTimestamp
      in chart_loop parseFloat history pairDayDatas rest owned
           (formattedHistory @
            [\<lparr>entry_date = dayTimestamp,
              valueUSD = dailyUSD parseFloat pairDayDatas owned dayTimestamp\<rparr>]))"

text \<open>
  \<open>fetchData\<close> of \<open>useUserLiquidityChart\<close>. \<open>now\<close> is the clock reading
  \<open>dayjs.utc().unix()\<close>; \<open>client\<close> answers the bulk day-data query for the pair
  list and the start timestamp, or rejects. The comparator of the sort orders by
  timestamp, so \<open>sortedPositions[0]\<close> carries the least timestamp of the history;
  reading it from an empty history is a \<open>TypeError\<close>.
\<close>

definition fetchData ::
  "(string \<Rightarrow> jsnum) \<Rightarrow> (string list \<Rightarrow> nat \<Rightarrow> error + pairDayData list) \<Rightarrow> nat \<Rightarrow>
   nat \<Rightarrow> snapshot list \<Rightarrow> error + chartEntry list" where
  "fetchData parseFloat client now startDateTimestamp history =
     (let dayIndex = initialDayIndex startDateTimestamp;
          currentDayIndex = now div 86400;
          sortedPositions = sort_key timestamp history
      in case sortedPositions of
           [] \<Rightarrow> Inl TypeError
         | first # _ \<Rightarrow>
             let dayTimestamps =
                   dayTimestamps_loop (bumpDayIndex dayIndex first) currentDayIndex [];
                 pairs = map pair_id history
             in (case client pairs startDateTimestamp of
                   Inl e \<Rightarrow> Inl e
                 | Inr pairDayDatas \<Rightarrow>
                     Inr (chart_loop parseFloat history pairDayDatas dayTimestamps [] [])))"

text \<open>
  The effect of \<open>useUserLiquidityChart\<close>: \<open>fetchData\<close> runs only when the history
  and the start timestamp are present and truthy and the history is not empty;
  \<open>None\<close> when it does not run.
\<close>

definition useUserLiquidityChart ::
  "(string \<Rightarrow> jsnum) \<Rightarrow> (string list \<Rightarrow> nat \<Rightarrow> error + pairDayData list) \<Rightarrow> nat \<Rightarrow>
   snapshot list option \<Rightarrow> nat option \<Rightarrow> (error + chartEntry list) option" where
  "useUserLiquidityChart parseFloat client now history startDateTimestamp =
     (case history of
        None \<Rightarrow> None
      | Some h \<Rightarrow>
          (case startDateTimestamp of
             None \<Rightarrow> None
           | Some start \<Rightarrow>
               if start \<noteq> 0 \<and> length h > 0
               then Some (fetchData parseFloat client now start h)
               else None))"

text \<open>The day bucket of a timestamp: the first second of its UTC day.\<close>

definition day_bucket :: "nat \<Rightarrow> nat" where
  "day_bucket t = (t div 86400) * 86400"

section \<open>Auxiliary notions for the statements\<close>

text \<open>
  Request number \<open>j\<close> ends the pagination: it is rejected, its page is short,
  or its window has passed the end of the list (the loop's exit test).
\<close>

definition stops_at ::
  "(nat \<Rightarrow> 'a list \<Rightarrow> error + ('k \<times> 'v) list) \<Rightarrow> 'a list \<Rightarrow> nat \<Rightarrow> nat \<Rightarrow> bool" where
  "stops_at localClient list skipCount j =
     (case page_size localClient list skipCount j of
        None \<Rightarrow> True
      | Some k \<Rightarrow> k < skipCount \<or> j * skipCount + skipCount > length list)"

text \<open>The backend states that become samples: rows with a timestamp label and a state.\<close>

fun kept_states :: "(string \<times> ShareValueFragment option) list \<Rightarrow> ShareValueFragment list" where
  "kept_states [] = []"
| "kept_states ((row, None) # rest) = kept_states rest"
| "kept_states ((row, Some d) # rest) =
     (case split_t_1 row of
        None \<Rightarrow> kept_states rest
      | Some label \<Rightarrow> if label = [] then kept_states rest else d # kept_states rest)"

text \<open>What one pool adds to a day's sum.\<close>

definition pairUSD ::
  "(string \<Rightarrow> jsnum) \<Rightarrow> pairDayData list \<Rightarrow> (string \<times> ownership) list \<Rightarrow> nat \<Rightarrow> string \<Rightarrow> jsnum" where
  "pairUSD parseFloat pairDayDatas ownershipPerPair dayTimestamp address =
     (case mostRecentDayData pairDayDatas dayTimestamp address of
        None \<Rightarrow> Num 0
      | Some d \<Rightarrow>
          (case map_of ownershipPerPair address of
             Some own \<Rightarrow>
               jmul (jdiv (parseFloat (lpTokenBalance own)) (parseFloat (totalSupply d)))
                    (parseFloat (reserveUSD d))
           | None \<Rightarrow> Num 0))"

text \<open>
  The shape of a share-value series: every share price is the quotient of the
  sample's reserve and supply, the first return is 1, every later return is the
  quotient of the sample's share price and the first one.
\<close>

definition series_ok :: "(string option \<Rightarrow> jsnum) \<Rightarrow> ShareValueSnapshot list \<Rightarrow> bool" where
  "series_ok toFloat vs \<longleftrightarrow>
     (\<forall>v\<in>set vs. sharePriceUsd v
         = jdiv (toFloat (Some (sv_reserveUSD v))) (toFloat (Some (sv_totalSupply v))))
   \<and> (vs \<noteq> [] \<longrightarrow> roiUsd (vs ! 0) = Num 1)
   \<and> (\<forall>i. 0 < i \<and> i < length vs \<longrightarrow>
          roiUsd (vs ! i) = jdiv (sharePriceUsd (vs ! i)) (sharePriceUsd (vs ! 0)))"

section \<open>Concrete inputs for the runs\<close>

text \<open>A \<open>toFloat\<close> that agrees with \<open>parseFloat\<close> on digit strings.\<close>

definition decimalToFloat :: "string option \<Rightarrow> jsnum" where
  "decimalToFloat s = (case s of None \<Rightarrow> NaN | Some t \<Rightarrow> parseDecimal t)"

definition demo_state :: "nat user_state" where
  "demo_state =
     [''0xa'' \<mapsto> [TRANSACTIONS_KEY \<mapsto> Data 1, USER_PAIR_RETURNS_KEY \<mapsto> Returns [''p1'' \<mapsto> 5]],
      ''0xb'' \<mapsto> [POSITIONS_KEY \<mapsto> Data 2]]"

definition demo_payload :: "nat payload" where
  "demo_payload =
     \<lparr>account = ''0xa'', transactions = 0, positions = 0, miningPositions = 0,
      historyData = 0, payload_pairAddress = ''p2'', payload_data = 7\<rparr>"

text \<open>A block backend that finds block 5 for timestamp 2 and block 6 for timestamp 3.\<close>

definition demoBlockClient :: "nat \<Rightarrow> nat list \<Rightarrow> error + (string \<times> string list) list" where
  "demoBlockClient k sliced = Inr [(''t2'', [''5'']), (''t3'', [''6''])]"

definition fragment :: "string \<Rightarrow> string \<Rightarrow> ShareValueFragment" where
  "fragment usd supply =
     \<lparr>f_reserveUSD = usd, f_totalSupply = supply, f_reserve0 = ''1'', f_reserve1 = ''1'',
      f_token0_derivedCUSD = Some ''1'', f_token1_derivedCUSD = None\<rparr>"

text \<open>Share-value backends: a pool whose reserve grows, one that starts empty of value, one that starts with no supply.\<close>

definition risingClient ::
  "string \<Rightarrow> block list \<Rightarrow> error + (string \<times> ShareValueFragment option) list" where
  "risingClient pair blocks =
     Inr [(''t2'', Some (fragment ''200'' ''100'')), (''t3'', Some (fragment ''300'' ''100''))]"



definition snap :: "nat \<Rightarrow> string \<Rightarrow> string \<Rightarrow> snapshot" where
  "snap t pair balance = \<lparr>timestamp = t, pair_id = pair, liquidityTokenBalance = balance\<rparr>"

definition dayData :: "nat \<Rightarrow> string \<Rightarrow> string \<Rightarrow> string \<Rightarrow> pairDayData" where
  "dayData d pair supply usd = \<lparr>date = d, pairAddress = pair, totalSupply = supply, reserveUSD = usd\<rparr>"

text \<open>A day-data backend that answers every bulk query with the given records.\<close>

definition dayDataClient :: "pairDayData list \<Rightarrow> string list \<Rightarrow> nat \<Rightarrow> error + pairDayData list" where
  "dayDataClient records pairs startTimestamp = Inr records"

section \<open>Numbers and percent changes\<close>

lemma parseDecimal_digits:
  "parseDecimal ''0'' = Num 0" "parseDecimal ''1'' = Num 1" "parseDecimal ''2'' = Num 2"
  "parseDecimal ''3'' = Num 3"
  "parseDecimal ''5'' = Num 5" "parseDecimal ''6'' = Num 6"
  "parseDecimal ''10'' = Num 10" "parseDecimal ''15'' = Num 15"
  "parseDecimal ''100'' = Num 100" "parseDecimal ''110'' = Num 110"
  "parseDecimal ''200'' = Num 200" "parseDecimal ''300'' = Num 300"
  "parseDecimal ''1000'' = Num 1000"
  by (simp_all add: parseDecimal_def digit_value_def)




text \<open>
  C8. \<open>get2DayPercentChange\<close> returns, first, the current change
  \<open>valueNow - value24HoursAgo\<close> and, second, the adjusted percent change
  \<open>((currentChange - previousChange) / previousChange) * 100\<close> with
  \<open>previousChange = value24HoursAgo - value48HoursAgo\<close>, replaced by 0 exactly
  when it is not a finite number; an omitted argument counts as \<open>'0'\<close>. For
  \<open>(300, 200, 100)\<close>, with any parser that reads the three arguments as 300,
  200 and 100, the current change is 100, the previous change is 100, the
  adjusted percent change is \<open>((100 - 100) / 100) * 100 = 0\<close>, a finite number
  and so the value returned, and the pair is \<open>[100, 0]\<close>. For \<open>(5, 2, 1)\<close> the
  changes are 3 and 1 and the pair is \<open>[3, 200]\<close>.
\<close>

theorem get2DayPercentChange_300_200_100:
  "fst (get2DayPercentChange parseFloat valueNow value24HoursAgo value48HoursAgo)
     = jsub (parseFloat valueNow)
            (parseFloat (case value24HoursAgo of None \<Rightarrow> ''0'' | Some s \<Rightarrow> s))
   \<and> get2DayPercentChange parseFloat valueNow value24HoursAgo value48HoursAgo
     = get2DayPercentChange parseFloat valueNow
         (Some (case value24HoursAgo of None \<Rightarrow> ''0'' | Some s \<Rightarrow> s))
         (Some (case value48HoursAgo of None \<Rightarrow> ''0'' | Some s \<Rightarrow> s))
   \<and> snd (get2DayPercentChange parseFloat valueNow (Some v24) (Some v48))
     = (if isFinite
             (jmul (jdiv (jsub (jsub (parseFloat valueNow) (parseFloat v24))
                               (jsub (parseFloat v24) (parseFloat v48)))
                         (jsub (parseFloat v24) (parseFloat v48)))
                   (Num 100))
        then jmul (jdiv (jsub (jsub (parseFloat valueNow) (parseFloat v24))
                              (jsub (parseFloat v24) (parseFloat v48)))
                        (jsub (parseFloat v24) (parseFloat v48)))
                  (Num 100)
        else Num 0)
   \<and> (parseFloat ''300'' = Num 300 \<and> parseFloat ''200'' = Num 200 \<and> parseFloat ''100'' = Num 100
        \<longrightarrow> jsub (parseFloat ''300'') (parseFloat ''200'') = Num 100
          \<and> jsub (parseFloat ''200'') (parseFloat ''100'') = Num 100
          \<and> jmul (jdiv (jsub (jsub (parseFloat ''300'') (parseFloat ''200''))
                               (jsub (parseFloat ''200'') (parseFloat ''100'')))
                         (jsub (parseFloat ''200'') (parseFloat ''100'')))
                   (Num 100) = Num 0
          \<and> get2DayPercentChange parseFloat ''300'' (Some ''200'') (Some ''100'') = (Num 100, Num 0))
   \<and> (parseFloat ''5'' = Num 5 \<and> parseFloat ''2'' = Num 2 \<and> parseFloat ''1'' = Num 1
        \<longrightarrow> get2DayPercentChange parseFloat ''5'' (Some ''2'') (Some ''1'') = (Num 3, Num 200))"
proof -
  have a: "fst (get2DayPercentChange parseFloat valueNow value24HoursAgo value48HoursAgo)
     = jsub (parseFloat valueNow)
            (parseFloat (case value24HoursAgo of None \<Rightarrow> ''0'' | Some s \<Rightarrow> s))"
    by (simp add: get2DayPercentChange_def Let_def)
  have dflt: "get2DayPercentChange parseFloat valueNow value24HoursAgo value48HoursAgo
     = get2DayPercentChange parseFloat valueNow
         (Some (case value24HoursAgo of None \<Rightarrow> ''0'' | Some s \<Rightarrow> s))
         (Some (case value48HoursAgo of None \<Rightarrow> ''0'' | Some s \<Rightarrow> s))"
    by (simp add: get2DayPercentChange_def)
  have fin: "isFinite x \<longleftrightarrow> \<not> (isNaN x \<or> \<not> isFinite x)" for x
    by (cases x) simp_all
  have b: "snd (get2DayPercentChange parseFloat valueNow (Some v24) (Some v48))
     = (if isFinite
             (jmul (jdiv (jsub (jsub (parseFloat valueNow) (parseFloat v24))
                               (jsub (parseFloat v24) (parseFloat v48)))
                         (jsub (parseFloat v24) (parseFloat v48)))
                   (Num 100))
        then jmul (jdiv (jsub (jsub (parseFloat valueNow) (parseFloat v24))
                              (jsub (parseFloat v24) (parseFloat v48)))
                        (jsub (parseFloat v24) (parseFloat v48)))
                  (Num 100)
        else Num 0)"
    unfolding get2DayPercentChange_def Let_def
    by (subst fin) simp
  have c: "parseFloat ''300'' = Num 300 \<and> parseFloat ''200'' = Num 200 \<and> parseFloat ''100'' = Num 100
        \<longrightarrow> jsub (parseFloat ''300'') (parseFloat ''200'') = Num 100
          \<and> jsub (parseFloat ''200'') (parseFloat ''100'') = Num 100
          \<and> jmul (jdiv (jsub (jsub (parseFloat ''300'') (parseFloat ''200''))
                               (jsub (parseFloat ''200'') (parseFloat ''100'')))
                         (jsub (parseFloat ''200'') (parseFloat ''100'')))
                   (Num 100) = Num 0
          \<and> get2DayPercentChange parseFloat ''300'' (Some ''200'') (Some ''100'') = (Num 100, Num 0)"
    by (simp add: get2DayPercentChange_def jsub_def)
  have d: "parseFloat ''5'' = Num 5 \<and> parseFloat ''2'' = Num 2 \<and> parseFloat ''1'' = Num 1
        \<longrightarrow> get2DayPercentChange parseFloat ''5'' (Some ''2'') (Some ''1'') = (Num 3, Num 200)"
    by (simp add: get2DayPercentChange_def jsub_def)
  show ?thesis using a dflt b c d by (intro conjI)
qed

theorem get2DayPercentChange_300_200_100_witness:
  "parseDecimal ''300'' = Num 300 \<and> parseDecimal ''200'' = Num 200 \<and> parseDecimal ''100'' = Num 100
   \<and> parseDecimal ''5'' = Num 5 \<and> parseDecimal ''2'' = Num 2 \<and> parseDecimal ''1'' = Num 1
   \<and> get2DayPercentChange parseDecimal ''300'' (Some ''200'') (Some ''100'') = (Num 100, Num 0)
   \<and> get2DayPercentChange parseDecimal ''5'' (Some ''2'') (Some ''1'') = (Num 3, Num 200)
   \<and> isFinite (jmul (jdiv (jsub (jsub (parseDecimal ''5'') (parseDecimal ''2''))
                               (jsub (parseDecimal ''2'') (parseDecimal ''1'')))
                         (jsub (parseDecimal ''2'') (parseDecimal ''1'')))
                   (Num 100))
   \<and> snd (get2DayPercentChange parseDecimal ''100'' (Some ''100'') (Some ''100'')) = Num 0
   \<and> jmul (jdiv (jsub (jsub (parseDecimal ''100'') (parseDecimal ''100''))
                               (jsub (parseDecimal ''100'') (parseDecimal ''100'')))
                         (jsub (parseDecimal ''100'') (parseDecimal ''100'')))
                   (Num 100) = NaN"
proof -
  note t1 = get2DayPercentChange_300_200_100 [of parseDecimal "''5''" "Some ''2''" "Some ''1''" "''2''" "''1''"]
  note t2 = get2DayPercentChange_300_200_100 [of parseDecimal "''100''" "Some ''100''" "Some ''100''" "''100''" "''100''"]
  have x: "get2DayPercentChange parseDecimal ''300'' (Some ''200'') (Some ''100'') = (Num 100, Num 0)"
    using t1 parseDecimal_digits by simp
  have y: "get2DayPercentChange parseDecimal ''5'' (Some ''2'') (Some ''1'') = (Num 3, Num 200)"
    using t1 parseDecimal_digits by simp
  have n: "jmul (jdiv (jsub (jsub (parseDecimal ''100'') (parseDecimal ''100''))
                               (jsub (parseDecimal ''100'') (parseDecimal ''100'')))
                         (jsub (parseDecimal ''100'') (parseDecimal ''100'')))
                   (Num 100) = NaN"
    by (simp add: parseDecimal_digits jsub_def)
  have z: "snd (get2DayPercentChange parseDecimal ''100'' (Some ''100'') (Some ''100'')) = Num 0"
    using t2 n by simp
  have f: "isFinite (jmul (jdiv (jsub (jsub (parseDecimal ''5'') (parseDecimal ''2''))
                               (jsub (parseDecimal ''2'') (parseDecimal ''1'')))
                         (jsub (parseDecimal ''2'') (parseDecimal ''1'')))
                   (Num 100))"
    by (simp add: parseDecimal_digits jsub_def)
  show ?thesis using x y z n f parseDecimal_digits(1-3,5,9,11,12) by (intro conjI)
qed

section \<open>The reducer\<close>

lemma spread_account_upd:
  "spread_account (state(a \<mapsto> c)) b = (if b = a then c else spread_account state b)"
  by (simp add: spread_account_def)

lemma keys_distinct:
  "TRANSACTIONS_KEY \<noteq> POSITIONS_KEY" "TRANSACTIONS_KEY \<noteq> MINING_POSITIONS_KEY"
  "TRANSACTIONS_KEY \<noteq> USER_SNAPSHOTS" "TRANSACTIONS_KEY \<noteq> USER_PAIR_RETURNS_KEY"
  "POSITIONS_KEY \<noteq> MINING_POSITIONS_KEY" "POSITIONS_KEY \<noteq> USER_SNAPSHOTS"
  "POSITIONS_KEY \<noteq> USER_PAIR_RETURNS_KEY" "MINING_POSITIONS_KEY \<noteq> USER_SNAPSHOTS"
  "MINING_POSITIONS_KEY \<noteq> USER_PAIR_RETURNS_KEY" "USER_SNAPSHOTS \<noteq> USER_PAIR_RETURNS_KEY"
  by (simp_all add: TRANSACTIONS_KEY_def POSITIONS_KEY_def MINING_POSITIONS_KEY_def
      USER_SNAPSHOTS_def USER_PAIR_RETURNS_KEY_def)

text \<open>
  C10. Whenever the reducer accepts an action, every account other than
  \<open>payload.account\<close> keeps its entry; in the entry of \<open>payload.account\<close> every
  cache key other than the one the action writes keeps its value; and in the
  pair returns of that account every pair address other than
  \<open>payload.pairAddress\<close> keeps its value.
\<close>

theorem reducer_frame:
  assumes "reducer state (type, p) = Inr state'"
  shows "(\<forall>a. a \<noteq> account p \<longrightarrow> state' a = state a)
       \<and> (\<forall>k. k \<noteq> target_key type \<longrightarrow>
             spread_account state' (account p) k = spread_account state (account p) k)
       \<and> (\<forall>pair. pair \<noteq> payload_pairAddress p \<longrightarrow>
             spread_returns state' (account p) pair = spread_returns state (account p) pair)"
  using assms keys_distinct
  by (auto simp: reducer_def target_key_def spread_returns_def spread_account_upd Let_def
      split: if_splits)

theorem reducer_frame_witness:
  "\<exists>state'. reducer demo_state (UPDATE_USER_PAIR_RETURNS, demo_payload) = Inr state'
     \<and> state' ''0xb'' = demo_state ''0xb''
     \<and> spread_account state' ''0xa'' TRANSACTIONS_KEY = Some (Data 1)
     \<and> spread_returns state' ''0xa'' ''p1'' = Some 5
     \<and> spread_returns state' ''0xa'' ''p2'' = Some 7"
proof -
  obtain state' where run: "reducer demo_state (UPDATE_USER_PAIR_RETURNS, demo_payload) = Inr state'"
    by (simp add: reducer_def Let_def UPDATE_USER_PAIR_RETURNS_def UPDATE_TRANSACTIONS_def
        UPDATE_POSITIONS_def UPDATE_MINING_POSITIONS_def UPDATE_USER_POSITION_HISTORY_def)
  have tk: "target_key UPDATE_USER_PAIR_RETURNS = USER_PAIR_RETURNS_KEY"
    by (simp add: target_key_def UPDATE_USER_PAIR_RETURNS_def UPDATE_TRANSACTIONS_def
        UPDATE_POSITIONS_def UPDATE_MINING_POSITIONS_def UPDATE_USER_POSITION_HISTORY_def)
  note frame = reducer_frame [OF run]
  have other: "state' ''0xb'' = demo_state ''0xb''"
    using frame by (simp add: demo_payload_def)
  have "spread_account state' ''0xa'' TRANSACTIONS_KEY = spread_account demo_state ''0xa'' TRANSACTIONS_KEY"
    using frame tk keys_distinct by (simp add: demo_payload_def)
  then have key: "spread_account state' ''0xa'' TRANSACTIONS_KEY = Some (Data 1)"
    using keys_distinct by (simp add: spread_account_def demo_state_def)
  have "spread_returns state' ''0xa'' ''p1'' = spread_returns demo_state ''0xa'' ''p1''"
    using frame by (simp add: demo_payload_def)
  then have p1: "spread_returns state' ''0xa'' ''p1'' = Some 5"
    by (simp add: spread_returns_def spread_account_def demo_state_def)
  have p2: "spread_returns state' ''0xa'' ''p2'' = Some 7"
    using run
    by (auto simp add: reducer_def Let_def UPDATE_USER_PAIR_RETURNS_def UPDATE_TRANSACTIONS_def
        UPDATE_POSITIONS_def UPDATE_MINING_POSITIONS_def UPDATE_USER_POSITION_HISTORY_def
        spread_returns_def spread_account_def demo_payload_def)
  show ?thesis using run other key p1 p2 by blast
qed

section \<open>Pagination\<close>

lemma slice_window:
  "slice list (j * p) (if j * p + p < length list then j * p + p else length list) = window list p j"
  by (simp add: slice_def window_def)

lemma loop_char:
  assumes p: "0 < p"
  shows "skip = length sent * p \<Longrightarrow>
    \<exists>m res. 0 < m
      \<and> splitQuery_loop c list p acc skip sent
          = Some (sent @ map (window list p) [length sent..<length sent + m], res)
      \<and> stops_at c list p (length sent + m - 1)
      \<and> (\<forall>i. length sent \<le> i \<and> i < length sent + m - 1 \<longrightarrow> \<not> stops_at c list p i)"
proof (induction "length list - skip" arbitrary: skip sent acc rule: less_induct)
  case less
  let ?j = "length sent"
  let ?w = "window list p ?j"
  have sl: "slice list skip (if skip + p < length list then skip + p else length list) = ?w"
    unfolding less.prems by (rule slice_window)
  show ?case
  proof (cases "c ?j ?w")
    case (Inl e)
    then have "splitQuery_loop c list p acc skip sent = Some (sent @ [?w], Inl e)"
      by (subst splitQuery_loop.simps) (simp add: sl Let_def)
    moreover have "stops_at c list p ?j"
      using Inl by (simp add: stops_at_def page_size_def)
    ultimately show ?thesis
      by (intro exI [of _ 1] exI [of _ "Inl e"]) auto
  next
    case (Inr d)
    show ?thesis
    proof (cases "length (Object_keys d) < p \<or> skip + p > length list")
      case True
      then have "splitQuery_loop c list p acc skip sent = Some (sent @ [?w], Inr (obj_spread acc d))"
        using Inr by (subst splitQuery_loop.simps) (simp add: sl Let_def)
      moreover have "stops_at c list p ?j"
        using Inr True less.prems by (auto simp add: stops_at_def page_size_def)
      ultimately show ?thesis
        by (intro exI [of _ 1] exI [of _ "Inr (obj_spread acc d)"]) auto
    next
      case False
      then have eq: "splitQuery_loop c list p acc skip sent
          = splitQuery_loop c list p (obj_spread acc d) (skip + p) (sent @ [?w])"
        using Inr by (subst splitQuery_loop.simps) (simp add: sl Let_def)
      have nstop: "\<not> stops_at c list p ?j"
        using Inr False less.prems by (auto simp add: stops_at_def page_size_def)
      have dec: "length list - (skip + p) < length list - skip"
        using False p by arith
      have inv: "skip + p = length (sent @ [?w]) * p"
        using less.prems by simp
      from less.hyps [OF dec inv, of "obj_spread acc d"]
      obtain m res where m: "0 < m"
        and run: "splitQuery_loop c list p (obj_spread acc d) (skip + p) (sent @ [?w])
            = Some ((sent @ [?w]) @ map (window list p) [Suc ?j..<Suc ?j + m], res)"
        and st: "stops_at c list p (Suc ?j + m - 1)"
        and ns: "\<forall>i. Suc ?j \<le> i \<and> i < Suc ?j + m - 1 \<longrightarrow> \<not> stops_at c list p i"
        by auto
      have "[?j..<?j + Suc m] = ?j # [Suc ?j..<Suc ?j + m]"
        by (simp add: upt_conv_Cons)
      then have "splitQuery_loop c list p acc skip sent
          = Some (sent @ map (window list p) [?j..<?j + Suc m], res)"
        using eq run by simp
      moreover have "stops_at c list p (?j + Suc m - 1)"
        using st by simp
      moreover have "\<forall>i. ?j \<le> i \<and> i < ?j + Suc m - 1 \<longrightarrow> \<not> stops_at c list p i"
      proof (intro allI impI)
        fix i assume i: "?j \<le> i \<and> i < ?j + Suc m - 1"
        show "\<not> stops_at c list p i"
        proof (cases "i = ?j")
          case True
          then show ?thesis using nstop by simp
        next
          case False
          then show ?thesis using ns i by simp
        qed
      qed
      ultimately show ?thesis
        by (intro exI [of _ "Suc m"] exI [of _ res]) simp
    qed
  qed
qed

lemma splitQuery_char:
  assumes "0 < p"
  shows "\<exists>m res. 0 < m
      \<and> splitQuery c list p = Some (map (window list p) [0..<m], res)
      \<and> stops_at c list p (m - 1)
      \<and> (\<forall>i. i < m - 1 \<longrightarrow> \<not> stops_at c list p i)"
  using loop_char [OF assms, of 0 "[]" c list "[]"] by (simp add: splitQuery_def)

lemma concat_windows: "concat (map (window list p) [0..<m]) = take (m * p) list"
proof (induction m)
  case 0
  show ?case by simp
next
  case (Suc m)
  have "take (m * p) list @ take p (drop (m * p) list) = take (m * p + p) list"
    by (simp add: take_add)
  then show ?case using Suc by (simp add: window_def add.commute)
qed

lemma stops_at_last: "0 < p \<Longrightarrow> stops_at c list p (length list div p)"
proof -
  assume "0 < p"
  then have "length list < length list div p * p + p"
    using div_mult_mod_eq [of "length list" p] mod_less_divisor [of p "length list"] by arith
  then show ?thesis by (simp add: stops_at_def split: option.splits)
qed

text \<open>
  The requests of \<open>splitQuery\<close>, for every page size \<open>skipCount > 0\<close> and
  every list: the call returns; the slices requested are the consecutive windows
  \<open>list[j * skipCount .. j * skipCount + skipCount)\<close>, together a prefix of the
  list, so no position is requested twice; there are at least one and at most
  \<open>n div skipCount + 1\<close> requests; a short page at request \<open>j\<close> ends the run
  after at most \<open>j + 1\<close> requests, exactly \<open>j + 1\<close> when every earlier page
  was full; when \<open>n\<close> is not a multiple of \<open>skipCount\<close> and every page before
  the last is full, the number of requests is \<open>ceil(n / skipCount)\<close>.
\<close>

lemma splitQuery_requests:
  assumes p: "0 < skipCount"
  shows "\<exists>sent res. splitQuery localClient list skipCount = Some (sent, res)
     \<and> sent = map (window list skipCount) [0..<length sent]
     \<and> concat sent = take (length sent * skipCount) list
     \<and> 1 \<le> length sent \<and> length sent \<le> length list div skipCount + 1
     \<and> (\<forall>j k. page_size localClient list skipCount j = Some k \<and> k < skipCount
            \<longrightarrow> length sent \<le> j + 1)
     \<and> (\<forall>j k. page_size localClient list skipCount j = Some k \<and> k < skipCount
              \<and> j \<le> length list div skipCount
              \<and> (\<forall>i<j. \<exists>k'. page_size localClient list skipCount i = Some k' \<and> skipCount \<le> k')
            \<longrightarrow> length sent = j + 1)
     \<and> ((\<forall>j<length list div skipCount.
              \<exists>k. page_size localClient list skipCount j = Some k \<and> skipCount \<le> k)
          \<and> \<not> skipCount dvd length list
            \<longrightarrow> length sent = (length list + skipCount - 1) div skipCount)
     \<and> (list = [] \<longrightarrow> sent = [[]])"
proof -
  let ?n = "length list"
  from splitQuery_char [OF p, of localClient list]
  obtain m res where m: "0 < m"
    and run: "splitQuery localClient list skipCount = Some (map (window list skipCount) [0..<m], res)"
    and st: "stops_at localClient list skipCount (m - 1)"
    and ns: "\<forall>i. i < m - 1 \<longrightarrow> \<not> stops_at localClient list skipCount i"
    by blast
  let ?sent = "map (window list skipCount) [0..<m]"
  have len: "length ?sent = m" by simp
  have upper: "m \<le> ?n div skipCount + 1"
  proof (rule ccontr)
    assume "\<not> m \<le> ?n div skipCount + 1"
    then have "?n div skipCount < m - 1" by arith
    then show False using ns stops_at_last [OF p, of localClient list] by blast
  qed
  have full_continues: "\<not> stops_at localClient list skipCount i"
    if "i < ?n div skipCount" "page_size localClient list skipCount i = Some k" "skipCount \<le> k"
    for i k
  proof -
    have "Suc i * skipCount \<le> (?n div skipCount) * skipCount"
      using that(1) by (intro mult_le_mono1) simp
    also have "\<dots> \<le> ?n" by simp
    finally have "i * skipCount + skipCount \<le> ?n" by (simp add: add.commute)
    then show ?thesis using that by (simp add: stops_at_def)
  qed
  have short_stops: "stops_at localClient list skipCount j"
    if "page_size localClient list skipCount j = Some k" "k < skipCount" for j k
    using that by (simp add: stops_at_def)
  have short_bound: "\<forall>j k. page_size localClient list skipCount j = Some k \<and> k < skipCount
            \<longrightarrow> m \<le> j + 1"
  proof (intro allI impI)
    fix j k assume "page_size localClient list skipCount j = Some k \<and> k < skipCount"
    then have "stops_at localClient list skipCount j" using short_stops by blast
    then have "\<not> j < m - 1" using ns by blast
    then show "m \<le> j + 1" by arith
  qed
  have short_exact: "\<forall>j k. page_size localClient list skipCount j = Some k \<and> k < skipCount
              \<and> j \<le> ?n div skipCount
              \<and> (\<forall>i<j. \<exists>k'. page_size localClient list skipCount i = Some k' \<and> skipCount \<le> k')
            \<longrightarrow> m = j + 1"
  proof (intro allI impI)
    fix j k
    assume a: "page_size localClient list skipCount j = Some k \<and> k < skipCount
              \<and> j \<le> ?n div skipCount
              \<and> (\<forall>i<j. \<exists>k'. page_size localClient list skipCount i = Some k' \<and> skipCount \<le> k')"
    then have le: "m \<le> j + 1" using short_bound by blast
    have "\<not> m - 1 < j"
    proof
      assume lt: "m - 1 < j"
      then have "m - 1 < ?n div skipCount" using a by arith
      moreover obtain k' where "page_size localClient list skipCount (m - 1) = Some k'" "skipCount \<le> k'"
        using a lt by blast
      ultimately have "\<not> stops_at localClient list skipCount (m - 1)"
        using full_continues by blast
      then show False using st by simp
    qed
    then show "m = j + 1" using le m by arith
  qed
  have full_exact: "(\<forall>j<?n div skipCount.
              \<exists>k. page_size localClient list skipCount j = Some k \<and> skipCount \<le> k)
          \<and> \<not> skipCount dvd ?n
            \<longrightarrow> m = (?n + skipCount - 1) div skipCount"
  proof (intro impI)
    assume a: "(\<forall>j<?n div skipCount.
              \<exists>k. page_size localClient list skipCount j = Some k \<and> skipCount \<le> k)
          \<and> \<not> skipCount dvd ?n"
    have "\<not> m - 1 < ?n div skipCount"
    proof
      assume lt: "m - 1 < ?n div skipCount"
      then obtain k where "page_size localClient list skipCount (m - 1) = Some k" "skipCount \<le> k"
        using a by blast
      then have "\<not> stops_at localClient list skipCount (m - 1)"
        using full_continues lt by blast
      then show False using st by simp
    qed
    then have meq: "m = ?n div skipCount + 1" using upper m by arith
    have r: "0 < ?n mod skipCount" using a by (simp add: dvd_eq_mod_eq_0)
    have r2: "?n mod skipCount < skipCount" using p by simp
    have n: "?n = skipCount * (?n div skipCount) + ?n mod skipCount" by simp
    have "(?n + skipCount - 1) div skipCount = ?n div skipCount + 1"
    proof (rule div_nat_eqI)
      have "skipCount * (?n div skipCount + 1) = skipCount * (?n div skipCount) + skipCount"
        by (simp add: algebra_simps)
      then show "skipCount * (?n div skipCount + 1) \<le> ?n + skipCount - 1"
        using n r by arith
      have "skipCount * Suc (?n div skipCount + 1)
          = skipCount * (?n div skipCount) + skipCount + skipCount"
        by (simp add: algebra_simps)
      then show "?n + skipCount - 1 < skipCount * Suc (?n div skipCount + 1)"
        using n r2 p by arith
    qed
    then show "m = (?n + skipCount - 1) div skipCount" using meq by simp
  qed
  have empty: "list = [] \<longrightarrow> ?sent = [[]]"
  proof
    assume e: "list = []"
    then have "m = 1" using upper m by simp
    then show "?sent = [[]]" using e by (simp add: window_def)
  qed
  show ?thesis
    using run len m upper short_bound short_exact full_exact empty concat_windows [of list skipCount m]
    by (intro exI [of _ ?sent] exI [of _ res]) (simp only: len, simp)
qed

lemma splitQuery_requests_example:
  "0 < (2::nat) \<and> \<not> (2::nat) dvd length [1, 2, 3::nat]
   \<and> page_size echoClient [1, 2, 3] 2 0 = Some 2
   \<and> page_size echoClient [1, 2, 3] 2 1 = Some 1
   \<and> map_option fst (splitQuery echoClient [1, 2, 3] 2) = Some [[1, 2], [3]]
   \<and> length [[1, 2], [3::nat]] = (length [1, 2, 3::nat] + 2 - 1) div 2
   \<and> map_option fst (splitQuery echoClient [] 2) = Some [[]]"
proof -
  have p0: "page_size echoClient [1, 2, 3] 2 0 = Some 2"
    by (simp add: page_size_def window_def echoClient_def Object_keys_def)
  have p1: "page_size echoClient [1, 2, 3] 2 1 = Some 1"
    by (simp add: page_size_def window_def echoClient_def Object_keys_def)
  from splitQuery_requests [of 2 echoClient "[1, 2, 3]"]
  obtain sent res where run: "splitQuery echoClient [1, 2, 3] 2 = Some (sent, res)"
    and shape: "sent = map (window [1, 2, 3] 2) [0..<length sent]"
    and short: "\<forall>j k. page_size echoClient [1, 2, 3] 2 j = Some k \<and> k < 2 \<longrightarrow> length sent \<le> j + 1"
    and full: "(\<forall>j<length [1, 2, 3::nat] div 2.
              \<exists>k. page_size echoClient [1, 2, 3] 2 j = Some k \<and> 2 \<le> k)
          \<and> \<not> 2 dvd length [1, 2, 3::nat]
            \<longrightarrow> length sent = (length [1, 2, 3::nat] + 2 - 1) div 2"
    by auto
  have "length sent \<le> 2" using short p1 by fastforce
  have "\<forall>j<length [1, 2, 3::nat] div 2. \<exists>k. page_size echoClient [1, 2, 3] 2 j = Some k \<and> 2 \<le> k"
    using p0 by simp
  then have "length sent = 2" using full by simp
  then have "sent = [[1, 2], [3]]"
    using shape by (simp add: window_def upt_conv_Cons)
  then have a: "map_option fst (splitQuery echoClient [1, 2, 3] 2) = Some [[1, 2], [3]]"
    using run by simp
  from splitQuery_requests [of 2 echoClient "[]"]
  obtain sent0 res0 where "splitQuery echoClient [] 2 = Some (sent0, res0)" "sent0 = [[]]"
    by auto
  then have b: "map_option fst (splitQuery echoClient [] 2) = Some [[]]" by simp
  show ?thesis using p0 p1 a b by simp
qed

text \<open>
  C1, evaluated. A list of two items with page size 2 and a backend that returns
  one entry per requested item: the first request carries the whole list and
  its page is full, yet a second request is sent, for the empty slice. Two
  requests are issued where \<open>ceil(2 / 2) = 1\<close>.
\<close>

theorem splitQuery_extra_request:
  "window [1, 2::nat] 2 0 = [1, 2]
   \<and> page_size echoClient [1, 2] 2 0 = Some 2
   \<and> map_option fst (splitQuery echoClient [1, 2] 2) = Some [[1, 2], []]
   \<and> length [[1, 2], ([]::nat list)] = 2
   \<and> (length [1, 2::nat] + 2 - 1) div 2 = 1"
proof -
  have a: "page_size echoClient [1, 2] 2 0 = Some 2"
    by (simp add: page_size_def window_def echoClient_def Object_keys_def)
  have b: "map_option fst (splitQuery echoClient [1, 2] 2) = Some [[1, 2], []]"
    by code_simp
  show ?thesis using a b by (simp add: window_def)
qed

text \<open>
  C9. On the empty timestamp list \<open>getBlocksFromTimestamps\<close> returns the empty
  result and has sent no request to the backend.
\<close>

theorem getBlocksFromTimestamps_empty:
  "getBlocksFromTimestamps blockClient parseInt (Some []) skipCount = Some ([], Inr [])"
  by (simp add: getBlocksFromTimestamps_def)

section \<open>Share values\<close>

lemma split_t_1_labels: "split_t_1 ''t2'' = Some ''2''" "split_t_1 ''t3'' = Some ''3''"
  by (simp_all add: split_t_1_def)

lemma blocks_run:
  "getBlocksFromTimestamps demoBlockClient parseDecimal (Some [2, 3]) 500
     = Some ([[2, 3]], Inr [\<lparr>block_timestamp = Num 2, number = Num 5\<rparr>,
                            \<lparr>block_timestamp = Num 3, number = Num 6\<rparr>])"
  unfolding getBlocksFromTimestamps_def splitQuery_def
  by (subst splitQuery_loop.simps)
     (simp add: demoBlockClient_def slice_def Object_keys_def obj_spread_def split_t_1_labels
        parseDecimal_digits)

lemmas share_run_defs = getShareValueOverTime_def blocks_run fragment_def split_t_1_labels
  decimalToFloat_def Let_def parseDecimal_digits

lemma values_loop_append:
  "\<exists>new. values_loop parseInt toFloat rows vals = vals @ new
     \<and> map (\<lambda>v. (sv_reserveUSD v, sv_totalSupply v)) new
         = map (\<lambda>d. (f_reserveUSD d, f_totalSupply d)) (kept_states rows)"
proof (induction parseInt toFloat rows vals rule: values_loop.induct)
  case (1 parseInt toFloat vals)
  show ?case by simp
next
  case (2 parseInt toFloat row rest vals)
  then show ?case by simp
next
  case (3 parseInt toFloat row d rest vals)
  show ?case
  proof (cases "split_t_1 row")
    case None
    then show ?thesis using 3 by simp
  next
    case (Some lbl)
    show ?thesis
    proof (cases "lbl = []")
      case True
      then show ?thesis using 3 Some by simp
    next
      case False
      then show ?thesis using 3(3) [OF Some False refl] Some
        by (auto simp add: Let_def)
    qed
  qed
qed

lemma series_ok_snoc:
  assumes "series_ok toFloat vs"
    and "sharePriceUsd s = jdiv (toFloat (Some (sv_reserveUSD s))) (toFloat (Some (sv_totalSupply s)))"
    and "roiUsd s = (case vs of [] \<Rightarrow> Num 1 | v0 # _ \<Rightarrow> jdiv (sharePriceUsd s) (sharePriceUsd v0))"
  shows "series_ok toFloat (vs @ [s])"
proof (cases vs)
  case Nil
  then show ?thesis using assms by (simp add: series_ok_def)
next
  case (Cons v0 rest)
  then show ?thesis using assms
    by (auto simp add: series_ok_def nth_append nth_Cons split: nat.splits)
qed

lemma values_loop_series:
  "series_ok toFloat vals \<Longrightarrow> series_ok toFloat (values_loop parseInt toFloat rows vals)"
proof (induction parseInt toFloat rows vals rule: values_loop.induct)
  case (1 parseInt toFloat vals)
  then show ?case by simp
next
  case (2 parseInt toFloat row rest vals)
  then show ?case by simp
next
  case (3 parseInt toFloat row d rest vals)
  show ?case
  proof (cases "split_t_1 row")
    case None
    then show ?thesis using 3 by simp
  next
    case (Some lbl)
    show ?thesis
    proof (cases "lbl = []")
      case True
      then show ?thesis using 3 Some by simp
    next
      case False
      show ?thesis using Some False
        apply (simp add: Let_def)
        apply (rule 3(3) [OF Some False refl, simplified Let_def])
        apply (rule series_ok_snoc [OF 3(4)])
         apply (simp_all split: list.splits)
        done
    qed
  qed
qed

lemma getShareValueOverTime_rows:
  assumes "getShareValueOverTime blockClient client parseInt toFloat utcSevenDaysBack pair timestamps
             = Some (Inr vs)"
  shows "\<exists>blocks rows. client pair blocks = Inr rows \<and> vs = values_loop parseInt toFloat rows []"
  using assms
  by (auto simp add: getShareValueOverTime_def Let_def split: option.splits sum.splits prod.splits)

lemma getShareValueOverTime_series:
  assumes "getShareValueOverTime blockClient client parseInt toFloat utcSevenDaysBack pair timestamps
             = Some (Inr vs)"
  shows "series_ok toFloat vs"
proof -
  from getShareValueOverTime_rows [OF assms] obtain blocks rows
    where "vs = values_loop parseInt toFloat rows []" by blast
  moreover have "series_ok toFloat []" by (simp add: series_ok_def)
  ultimately show ?thesis using values_loop_series by blast
qed


text \<open>
  C3. Every series returned by \<open>getShareValueOverTime\<close> is built from the rows
  of one backend answer, one sample per row with a timestamp label and a state,
  in order; each sample's \<open>sharePriceUsd\<close> is \<open>reserveUSD / totalSupply\<close> of its
  state; the first sample's \<open>roiUsd\<close> is exactly 1; every later sample's
  \<open>roiUsd\<close> is its \<open>sharePriceUsd\<close> divided by the first sample's.
\<close>

theorem share_value_series:
  assumes "getShareValueOverTime blockClient client parseInt toFloat utcSevenDaysBack pair timestamps
             = Some (Inr vs)"
  shows "(\<exists>blocks rows. client pair blocks = Inr rows
            \<and> map (\<lambda>v. (sv_reserveUSD v, sv_totalSupply v)) vs
                = map (\<lambda>d. (f_reserveUSD d, f_totalSupply d)) (kept_states rows))
       \<and> (\<forall>v\<in>set vs. sharePriceUsd v
              = jdiv (toFloat (Some (sv_reserveUSD v))) (toFloat (Some (sv_totalSupply v))))
       \<and> (vs \<noteq> [] \<longrightarrow> roiUsd (vs ! 0) = Num 1)
       \<and> (\<forall>i. 0 < i \<and> i < length vs \<longrightarrow>
              roiUsd (vs ! i) = jdiv (sharePriceUsd (vs ! i)) (sharePriceUsd (vs ! 0)))"
proof -
  from getShareValueOverTime_rows [OF assms] obtain blocks rows
    where c: "client pair blocks = Inr rows" and vs: "vs = values_loop parseInt toFloat rows []"
    by blast
  from values_loop_append [of parseInt toFloat rows "[]"]
  have "map (\<lambda>v. (sv_reserveUSD v, sv_totalSupply v)) vs
          = map (\<lambda>d. (f_reserveUSD d, f_totalSupply d)) (kept_states rows)"
    using vs by auto
  then have first: "\<exists>blocks rows. client pair blocks = Inr rows
            \<and> map (\<lambda>v. (sv_reserveUSD v, sv_totalSupply v)) vs
                = map (\<lambda>d. (f_reserveUSD d, f_totalSupply d)) (kept_states rows)"
    using c by blast
  from getShareValueOverTime_series [OF assms] show ?thesis
    using first unfolding series_ok_def by blast
qed

theorem share_value_series_witness:
  "\<exists>vs. getShareValueOverTime demoBlockClient risingClient parseDecimal decimalToFloat 0 ''A''
            (Some [2, 3]) = Some (Inr vs)
     \<and> map sharePriceUsd vs = [Num 2, Num 3]
     \<and> map roiUsd vs = [Num 1, Num (3 / 2)]"
proof -
  have "\<exists>vs. getShareValueOverTime demoBlockClient risingClient parseDecimal decimalToFloat 0 ''A''
            (Some [2, 3]) = Some (Inr vs) \<and> map sharePriceUsd vs = [Num 2, Num 3]"
    by (simp add: share_run_defs risingClient_def)
  then obtain vs where run: "getShareValueOverTime demoBlockClient risingClient parseDecimal
        decimalToFloat 0 ''A'' (Some [2, 3]) = Some (Inr vs)"
    and prices: "map sharePriceUsd vs = [Num 2, Num 3]" by (elim exE conjE)
  from prices obtain a b where ab: "vs = [a, b]" by auto
  from share_value_series [OF run]
  have "roiUsd (vs ! 0) = Num 1" and "roiUsd (vs ! 1) = jdiv (sharePriceUsd (vs ! 1)) (sharePriceUsd (vs ! 0))"
    using ab by auto
  then have "map roiUsd vs = [Num 1, Num (3 / 2)]"
    using ab prices by simp
  then show ?thesis using run prices by - (rule exI [of _ vs], simp)
qed




section \<open>The daily liquidity chart: dates\<close>

lemma dayTimestamps_loop_eq:
  "dayTimestamps_loop dayIndex currentDayIndex acc
     = acc @ map (\<lambda>d. d * 86400) [dayIndex..<currentDayIndex]"
proof (induction dayIndex currentDayIndex acc rule: dayTimestamps_loop.induct)
  case (1 dayIndex currentDayIndex acc)
  show ?case
  proof (cases "dayIndex < currentDayIndex")
    case True
    then show ?thesis
      using 1 by (subst dayTimestamps_loop.simps) (simp add: upt_conv_Cons)
  next
    case False
    then show ?thesis by (subst dayTimestamps_loop.simps) simp
  qed
qed

lemma chart_loop_dates:
  "map entry_date (chart_loop parseFloat history pairDayDatas days own fh)
     = map entry_date fh @ days"
  by (induction days arbitrary: own fh) (simp_all add: Let_def)

lemma fetchData_dates:
  assumes "fetchData parseFloat client now start history = Inr fh"
  shows "\<exists>first. map entry_date fh = map (\<lambda>d. d * 86400) [first..<now div 86400]"
  using assms
  by (auto simp add: fetchData_def Let_def dayTimestamps_loop_eq chart_loop_dates
      split: list.splits sum.splits)

text \<open>
  C6. Every entry of the series that \<open>useUserLiquidityChart\<close> produces has a
  date strictly below \<open>floor(now / 86400) * 86400\<close>: the current day bucket is
  never part of the output.
\<close>

theorem chart_excludes_current_day:
  assumes "useUserLiquidityChart parseFloat client now history startDateTimestamp
             = Some (Inr formattedHistory)"
  shows "\<forall>e\<in>set formattedHistory. entry_date e < (now div 86400) * 86400"
proof -
  from assms obtain h start where "fetchData parseFloat client now start h = Inr formattedHistory"
    by (auto simp add: useUserLiquidityChart_def split: option.splits if_splits)
  from fetchData_dates [OF this] obtain first
    where d: "map entry_date formattedHistory = map (\<lambda>d. d * 86400) [first..<now div 86400]" ..
  show ?thesis
  proof
    fix e assume "e \<in> set formattedHistory"
    then have "entry_date e \<in> set (map entry_date formattedHistory)" by simp
    then obtain k where "k < now div 86400" "entry_date e = k * 86400"
      unfolding d by auto
    then show "entry_date e < (now div 86400) * 86400" by simp
  qed
qed

lemmas chart_defs = useUserLiquidityChart_def fetchData_def initialDayIndex_def bumpDayIndex_def
  ownershipForDay_def relevantPositions_def updateOwnership_def dailyUSD_def Object_keys_def
  mostRecentDayData_def addPairUSD_def dayTimestamps_loop.simps snap_def dayData_def
  dayDataClient_def

lemma chart_run_two_snapshots:
  "useUserLiquidityChart parseDecimal (dayDataClient [dayData 0 ''A'' ''100'' ''1000'']) 180000
     (Some [snap 100 ''A'' ''10'', snap 200 ''A'' ''15'']) (Some 50)
   = Some (Inr [\<lparr>entry_date = 0, valueUSD = Num 150\<rparr>, \<lparr>entry_date = 86400, valueUSD = Num 150\<rparr>])"
  by (simp add: chart_defs parseDecimal_digits)

theorem chart_excludes_current_day_witness:
  "useUserLiquidityChart parseDecimal (dayDataClient [dayData 0 ''A'' ''100'' ''1000'']) 180000
     (Some [snap 100 ''A'' ''10'', snap 200 ''A'' ''15'']) (Some 50)
   = Some (Inr [\<lparr>entry_date = 0, valueUSD = Num 150\<rparr>, \<lparr>entry_date = 86400, valueUSD = Num 150\<rparr>])
   \<and> entry_date \<lparr>entry_date = 0, valueUSD = Num 150\<rparr> < (180000 div 86400) * 86400
   \<and> entry_date \<lparr>entry_date = 86400, valueUSD = Num 150\<rparr> < (180000 div 86400) * 86400
   \<and> (180000 div 86400) * 86400 = (172800::nat)"
proof -
  have "\<forall>e\<in>set [\<lparr>entry_date = 0, valueUSD = Num 150\<rparr>, \<lparr>entry_date = 86400, valueUSD = Num 150\<rparr>].
          entry_date e < (180000 div 86400) * 86400"
    by (rule chart_excludes_current_day [OF chart_run_two_snapshots])
  then have "entry_date \<lparr>entry_date = 0, valueUSD = Num 150\<rparr> < (180000 div 86400) * 86400"
    and "entry_date \<lparr>entry_date = 86400, valueUSD = Num 150\<rparr> < (180000 div 86400) * 86400"
    by simp_all
  then show ?thesis using chart_run_two_snapshots by simp
qed

text \<open>
  C2, evaluated. With the window starting on day 10 (timestamp 864000) and the
  only snapshot on day 20 (timestamp 1728005), the start index 10 is replaced
  by 20: the series begins at 1728000, later than the window start and later
  than the earlier of the two days, 864000.
\<close>

theorem chart_start_moved_later:
  "initialDayIndex 864000 = 10
   \<and> bumpDayIndex 10 (snap 1728005 ''A'' ''10'') = 20
   \<and> useUserLiquidityChart parseDecimal (dayDataClient []) 1900800
        (Some [snap 1728005 ''A'' ''10'']) (Some 864000)
      = Some (Inr [\<lparr>entry_date = 1728000, valueUSD = Num 0\<rparr>,
                   \<lparr>entry_date = 1814400, valueUSD = Num 0\<rparr>])
   \<and> min (day_bucket 864000) (day_bucket 1728005) = 864000"
  by (simp add: chart_defs day_bucket_def)

section \<open>The daily liquidity chart: ownership\<close>

text \<open>
  One day's update of the ownership map, when every balance already in the map
  is no younger than the day's start \<open>T\<close> (as it is when the days are visited in
  ascending order): a pool with no snapshot strictly between \<open>T\<close> and
  \<open>T + 86400\<close> keeps its entry; a pool with such snapshots gets the balance of
  one with the latest timestamp among them; and every entry is then no younger
  than the next day's start.
\<close>

lemma map_of_obj_set: "map_of (obj_set k v ps) = (map_of ps)(k \<mapsto> v)"
  by (induction ps) auto

lemma map_of_updateOwnership:
  "map_of (updateOwnership own s) P =
     (if pair_id s = P \<and> (case map_of own P of None \<Rightarrow> True | Some e \<Rightarrow> own_timestamp e < timestamp s)
      then Some \<lparr>lpTokenBalance = liquidityTokenBalance s, own_timestamp = timestamp s\<rparr>
      else map_of own P)"
  by (auto simp add: updateOwnership_def Let_def map_of_obj_set split: option.splits)

lemma fold_latest:
  "(map_of (foldl updateOwnership own rel) P = map_of own P
      \<or> (\<exists>s\<in>set rel. pair_id s = P \<and> map_of (foldl updateOwnership own rel) P
            = Some \<lparr>lpTokenBalance = liquidityTokenBalance s, own_timestamp = timestamp s\<rparr>))
   \<and> (\<forall>s\<in>set rel. pair_id s = P \<longrightarrow>
          (\<exists>e. map_of (foldl updateOwnership own rel) P = Some e \<and> timestamp s \<le> own_timestamp e))
   \<and> (\<forall>e. map_of own P = Some e \<longrightarrow>
          (\<exists>e'. map_of (foldl updateOwnership own rel) P = Some e' \<and> own_timestamp e \<le> own_timestamp e'))
   \<and> ((\<forall>s\<in>set rel. pair_id s \<noteq> P) \<longrightarrow> map_of (foldl updateOwnership own rel) P = map_of own P)"
proof (induction rel arbitrary: own)
  case Nil
  show ?case by simp
next
  case (Cons s rel)
  let ?own1 = "updateOwnership own s"
  let ?r = "map_of (foldl updateOwnership ?own1 rel) P"
  note IH = Cons.IH [of ?own1]
  have A: "?r = map_of own P
      \<or> (\<exists>s'\<in>set (s # rel). pair_id s' = P \<and> ?r
            = Some \<lparr>lpTokenBalance = liquidityTokenBalance s', own_timestamp = timestamp s'\<rparr>)"
  proof -
    from IH have "?r = map_of ?own1 P
      \<or> (\<exists>s'\<in>set rel. pair_id s' = P \<and> ?r
            = Some \<lparr>lpTokenBalance = liquidityTokenBalance s', own_timestamp = timestamp s'\<rparr>)"
      by blast
    then show ?thesis
      by (auto simp add: map_of_updateOwnership split: if_splits)
  qed
  have own1: "\<exists>e1. map_of ?own1 P = Some e1 \<and> timestamp s \<le> own_timestamp e1" if "pair_id s = P"
    using that by (auto simp add: map_of_updateOwnership split: option.splits)
  have mono1: "\<exists>e1. map_of ?own1 P = Some e1 \<and> own_timestamp e \<le> own_timestamp e1"
    if "map_of own P = Some e" for e
    using that by (auto simp add: map_of_updateOwnership)
  have C1: "\<exists>e'. ?r = Some e' \<and> own_timestamp e1 \<le> own_timestamp e'"
    if "map_of ?own1 P = Some e1" for e1
    using IH that by blast
  have B: "\<forall>s'\<in>set (s # rel). pair_id s' = P \<longrightarrow>
          (\<exists>e. ?r = Some e \<and> timestamp s' \<le> own_timestamp e)"
  proof (intro ballI impI)
    fix s' assume s': "s' \<in> set (s # rel)" and p: "pair_id s' = P"
    show "\<exists>e. ?r = Some e \<and> timestamp s' \<le> own_timestamp e"
    proof (cases "s' \<in> set rel")
      case True
      then show ?thesis using IH p by blast
    next
      case False
      then have "s' = s" using s' by simp
      then obtain e1 where "map_of ?own1 P = Some e1" "timestamp s' \<le> own_timestamp e1"
        using own1 p by blast
      then show ?thesis using C1 [of e1] by (metis le_trans)
    qed
  qed
  have C: "\<forall>e. map_of own P = Some e \<longrightarrow>
          (\<exists>e'. ?r = Some e' \<and> own_timestamp e \<le> own_timestamp e')"
  proof (intro allI impI)
    fix e assume "map_of own P = Some e"
    then obtain e1 where "map_of ?own1 P = Some e1" "own_timestamp e \<le> own_timestamp e1"
      using mono1 by blast
    then show "\<exists>e'. ?r = Some e' \<and> own_timestamp e \<le> own_timestamp e'"
      using C1 [of e1] by (metis le_trans)
  qed
  have D: "(\<forall>s'\<in>set (s # rel). pair_id s' \<noteq> P) \<longrightarrow> ?r = map_of own P"
  proof
    assume a: "\<forall>s'\<in>set (s # rel). pair_id s' \<noteq> P"
    then have "?r = map_of ?own1 P" using IH by simp
    then show "?r = map_of own P" using a by (simp add: map_of_updateOwnership)
  qed
  show ?case using A B C D by simp
qed

lemma ownershipForDay_latest:
  assumes old: "\<forall>k e. map_of own k = Some e \<longrightarrow> own_timestamp e \<le> T"
  shows "(\<forall>P. (\<forall>s\<in>set (relevantPositions history T). pair_id s \<noteq> P) \<longrightarrow>
            map_of (ownershipForDay history own T) P = map_of own P)
       \<and> (\<forall>P. (\<exists>s\<in>set (relevantPositions history T). pair_id s = P) \<longrightarrow>
            (\<exists>s\<in>set (relevantPositions history T). pair_id s = P
               \<and> (\<forall>s'\<in>set (relevantPositions history T). pair_id s' = P \<longrightarrow> timestamp s' \<le> timestamp s)
               \<and> map_of (ownershipForDay history own T) P
                   = Some \<lparr>lpTokenBalance = liquidityTokenBalance s, own_timestamp = timestamp s\<rparr>))
       \<and> (\<forall>k e. map_of (ownershipForDay history own T) k = Some e \<longrightarrow> own_timestamp e \<le> T + 86400)"
proof -
  let ?rel = "relevantPositions history T"
  have win: "T < timestamp s \<and> timestamp s < T + 86400" if "s \<in> set ?rel" for s
    using that by (simp add: relevantPositions_def Let_def)
  have unchanged: "\<forall>P. (\<forall>s\<in>set ?rel. pair_id s \<noteq> P) \<longrightarrow>
            map_of (ownershipForDay history own T) P = map_of own P"
    using fold_latest [of own ?rel] by (simp add: ownershipForDay_def)
  have latest: "\<forall>P. (\<exists>s\<in>set ?rel. pair_id s = P) \<longrightarrow>
            (\<exists>s\<in>set ?rel. pair_id s = P
               \<and> (\<forall>s'\<in>set ?rel. pair_id s' = P \<longrightarrow> timestamp s' \<le> timestamp s)
               \<and> map_of (ownershipForDay history own T) P
                   = Some \<lparr>lpTokenBalance = liquidityTokenBalance s, own_timestamp = timestamp s\<rparr>)"
  proof (intro allI impI)
    fix P assume "\<exists>s\<in>set ?rel. pair_id s = P"
    then obtain s0 where s0: "s0 \<in> set ?rel" "pair_id s0 = P" by blast
    let ?r = "map_of (foldl updateOwnership own ?rel) P"
    note F = fold_latest [of own ?rel P]
    from F s0 obtain e where e: "?r = Some e" "timestamp s0 \<le> own_timestamp e" by blast
    have "?r \<noteq> map_of own P"
    proof
      assume "?r = map_of own P"
      then have "own_timestamp e \<le> T" using old e by simp
      then show False using e win [OF s0(1)] by simp
    qed
    then obtain s where s: "s \<in> set ?rel" "pair_id s = P"
      "?r = Some \<lparr>lpTokenBalance = liquidityTokenBalance s, own_timestamp = timestamp s\<rparr>"
      using F by blast
    have "\<forall>s'\<in>set ?rel. pair_id s' = P \<longrightarrow> timestamp s' \<le> timestamp s"
    proof (intro ballI impI)
      fix s' assume "s' \<in> set ?rel" "pair_id s' = P"
      then obtain e' where "?r = Some e'" "timestamp s' \<le> own_timestamp e'" using F by blast
      then show "timestamp s' \<le> timestamp s" using s(3) by auto
    qed
    then show "\<exists>s\<in>set ?rel. pair_id s = P
               \<and> (\<forall>s'\<in>set ?rel. pair_id s' = P \<longrightarrow> timestamp s' \<le> timestamp s)
               \<and> map_of (ownershipForDay history own T) P
                   = Some \<lparr>lpTokenBalance = liquidityTokenBalance s, own_timestamp = timestamp s\<rparr>"
      using s by (auto simp add: ownershipForDay_def)
  qed
  have bound: "\<forall>k e. map_of (ownershipForDay history own T) k = Some e \<longrightarrow> own_timestamp e \<le> T + 86400"
  proof (intro allI impI)
    fix k e assume a: "map_of (ownershipForDay history own T) k = Some e"
    let ?r = "map_of (foldl updateOwnership own ?rel) k"
    from fold_latest [of own ?rel k]
    consider "?r = map_of own k"
      | s where "s \<in> set ?rel" "?r = Some \<lparr>lpTokenBalance = liquidityTokenBalance s, own_timestamp = timestamp s\<rparr>"
      by blast
    then show "own_timestamp e \<le> T + 86400"
    proof cases
      case 1
      then have "own_timestamp e \<le> T" using a old by (simp add: ownershipForDay_def)
      then show ?thesis by simp
    next
      case 2
      then have "own_timestamp e = timestamp s" using a by (auto simp add: ownershipForDay_def)
      then show ?thesis using win [OF 2(1)] by simp
    qed
  qed
  show ?thesis using unchanged latest bound by (intro conjI)
qed


section \<open>The daily liquidity chart: day data\<close>

lemma scan_member:
  "foldl (\<lambda>mostRecent dayData.
            if date dayData < T \<and> date dayData > date mostRecent then dayData else mostRecent) m ds
     \<in> insert m (set ds)"
  by (induction ds arbitrary: m) auto

lemma scan_below:
  assumes "date m < T"
  shows "date (foldl (\<lambda>mostRecent dayData.
            if date dayData < T \<and> date dayData > date mostRecent then dayData else mostRecent) m ds) < T
       \<and> date m \<le> date (foldl (\<lambda>mostRecent dayData.
            if date dayData < T \<and> date dayData > date mostRecent then dayData else mostRecent) m ds)
       \<and> (\<forall>d\<in>set ds. date d < T \<longrightarrow>
            date d \<le> date (foldl (\<lambda>mostRecent dayData.
              if date dayData < T \<and> date dayData > date mostRecent then dayData else mostRecent) m ds))"
  using assms
proof (induction ds arbitrary: m)
  case Nil
  then show ?case by simp
next
  case (Cons d ds)
  show ?case
  proof (cases "date d < T \<and> date d > date m")
    case True
    then have "date d < T" by simp
    from Cons.IH [OF this] show ?thesis using True by auto
  next
    case False
    from Cons.IH [OF Cons.prems] show ?thesis using False by auto
  qed
qed

lemma scan_keeps:
  "(\<forall>d\<in>set ds. date d < T \<longrightarrow> date d \<le> date m) \<Longrightarrow>
   foldl (\<lambda>mostRecent dayData.
            if date dayData < T \<and> date dayData > date mostRecent then dayData else mostRecent) m ds = m"
  by (induction ds arbitrary: m) auto

lemma mostRecentDayData_address:
  assumes a: "mostRecentDayData pairDayDatas T address = Some d"
  shows "pairAddress d = address"
proof -
  let ?ds = "filter (\<lambda>dayData. pairAddress dayData = address) pairDayDatas"
  let ?f = "\<lambda>mostRecent dayData.
            if date dayData < T \<and> date dayData > date mostRecent then dayData else mostRecent"
  from a obtain first rest where ds: "?ds = first # rest"
    by (cases ?ds) (simp_all add: mostRecentDayData_def)
  define r where "r = foldl ?f first ?ds"
  have "first \<in> set ?ds" unfolding ds by simp
  then have mem: "r \<in> set ?ds"
    using scan_member [of T first ?ds] unfolding r_def by (simp only: insert_absorb)
  have "mostRecentDayData pairDayDatas T address = Some r"
    unfolding r_def mostRecentDayData_def Let_def ds by simp
  then have "d = r" using a by simp
  then show ?thesis using mem by simp
qed

lemma jadd_zero: "jadd t (Num 0) = t"
  by (cases t) simp_all

lemma addPairUSD_pairUSD:
  "addPairUSD parseFloat own usd (mostRecentDayData pairDayDatas T address)
     = jadd usd (pairUSD parseFloat pairDayDatas own T address)"
  by (auto simp add: addPairUSD_def pairUSD_def jadd_zero dest: mostRecentDayData_address
      split: option.splits)

lemma dailyUSD_sum:
  "dailyUSD parseFloat pairDayDatas own T
     = foldl (\<lambda>usd address. jadd usd (pairUSD parseFloat pairDayDatas own T address))
         (Num 0) (Object_keys own)"
proof -
  have "foldl (addPairUSD parseFloat own) usd (map (mostRecentDayData pairDayDatas T) ks)
      = foldl (\<lambda>usd address. jadd usd (pairUSD parseFloat pairDayDatas own T address)) usd ks"
    for usd ks
    by (induction ks arbitrary: usd) (simp_all add: addPairUSD_pairUSD)
  then show ?thesis by (simp add: dailyUSD_def Let_def)
qed

text \<open>
  C4 (as amended). For a pool and a day bucket \<open>T\<close>: a pool with no daily
  record at all has no most recent record and adds 0; when the pool's first
  record, in the order of the backend's answer, is dated strictly before \<open>T\<close>,
  the record used is one of the pool's records dated strictly before \<open>T\<close> with
  the largest such date; when none of the pool's records is dated strictly
  before \<open>T\<close>, the pool's first record is used; and the day's value is the sum
  of these contributions over the pools with a known balance.
\<close>

theorem mostRecentDayData_selection:
  "(filter (\<lambda>d. pairAddress d = address) pairDayDatas = [] \<longrightarrow>
      mostRecentDayData pairDayDatas T address = None
      \<and> pairUSD parseFloat pairDayDatas own T address = Num 0)
   \<and> (\<forall>first rest. filter (\<lambda>d. pairAddress d = address) pairDayDatas = first # rest
          \<and> date first < T \<longrightarrow>
        (\<exists>r. mostRecentDayData pairDayDatas T address = Some r
           \<and> r \<in> set pairDayDatas \<and> pairAddress r = address \<and> date r < T
           \<and> (\<forall>d\<in>set pairDayDatas. pairAddress d = address \<and> date d < T \<longrightarrow> date d \<le> date r)))
   \<and> (\<forall>first rest. filter (\<lambda>d. pairAddress d = address) pairDayDatas = first # rest
          \<and> (\<forall>d\<in>set pairDayDatas. pairAddress d = address \<longrightarrow> \<not> date d < T) \<longrightarrow>
        mostRecentDayData pairDayDatas T address = Some first)
   \<and> dailyUSD parseFloat pairDayDatas own T
        = foldl (\<lambda>usd a. jadd usd (pairUSD parseFloat pairDayDatas own T a))
            (Num 0) (Object_keys own)"
proof -
  let ?ds = "filter (\<lambda>d. pairAddress d = address) pairDayDatas"
  let ?f = "\<lambda>mostRecent dayData.
            if date dayData < T \<and> date dayData > date mostRecent then dayData else mostRecent"
  have none: "?ds = [] \<longrightarrow> mostRecentDayData pairDayDatas T address = None
      \<and> pairUSD parseFloat pairDayDatas own T address = Num 0"
    by (simp add: mostRecentDayData_def pairUSD_def)
  have run: "mostRecentDayData pairDayDatas T address = Some (foldl ?f first ?ds)"
    if "?ds = first # rest" for first rest
    using that by (simp add: mostRecentDayData_def)
  have below: "\<forall>first rest. ?ds = first # rest \<and> date first < T \<longrightarrow>
        (\<exists>r. mostRecentDayData pairDayDatas T address = Some r
           \<and> r \<in> set pairDayDatas \<and> pairAddress r = address \<and> date r < T
           \<and> (\<forall>d\<in>set pairDayDatas. pairAddress d = address \<and> date d < T \<longrightarrow> date d \<le> date r))"
  proof (intro allI impI)
    fix first rest assume a: "?ds = first # rest \<and> date first < T"
    define r where "r = foldl ?f first ?ds"
    have ds: "?ds = first # rest" using a ..
    have "first \<in> set ?ds" unfolding ds by simp
    then have mem: "r \<in> set ?ds"
      using scan_member [of T first ?ds] unfolding r_def by (simp only: insert_absorb)
    then have r1: "r \<in> set pairDayDatas" and r2: "pairAddress r = address" by simp_all
    have b: "date r < T \<and> (\<forall>d\<in>set ?ds. date d < T \<longrightarrow> date d \<le> date r)"
      using scan_below [of first T ?ds] a unfolding r_def by blast
    then have b1: "date r < T"
      and b2: "\<forall>d\<in>set pairDayDatas. pairAddress d = address \<and> date d < T \<longrightarrow> date d \<le> date r"
      by simp_all
    have "mostRecentDayData pairDayDatas T address = Some r"
      using run [of first rest] a unfolding r_def by blast
    then show "\<exists>r. mostRecentDayData pairDayDatas T address = Some r
           \<and> r \<in> set pairDayDatas \<and> pairAddress r = address \<and> date r < T
           \<and> (\<forall>d\<in>set pairDayDatas. pairAddress d = address \<and> date d < T \<longrightarrow> date d \<le> date r)"
      using r1 r2 b1 b2 by blast
  qed
  have keeps: "\<forall>first rest. ?ds = first # rest
          \<and> (\<forall>d\<in>set pairDayDatas. pairAddress d = address \<longrightarrow> \<not> date d < T) \<longrightarrow>
        mostRecentDayData pairDayDatas T address = Some first"
  proof (intro allI impI)
    fix first rest
    assume a: "?ds = first # rest
          \<and> (\<forall>d\<in>set pairDayDatas. pairAddress d = address \<longrightarrow> \<not> date d < T)"
    then have a2: "\<forall>d\<in>set pairDayDatas. pairAddress d = address \<longrightarrow> \<not> date d < T" ..
    have "\<forall>d\<in>set ?ds. date d < T \<longrightarrow> date d \<le> date first"
      using a2 by simp
    from scan_keeps [OF this] show "mostRecentDayData pairDayDatas T address = Some first"
      using run [of first rest] a by simp
  qed
  show ?thesis using none below keeps dailyUSD_sum [of parseFloat pairDayDatas own T]
    by (intro conjI)
qed

theorem mostRecentDayData_selection_witness:
  "mostRecentDayData [dayData 86400 ''A'' ''100'' ''1000'', dayData 172800 ''A'' ''100'' ''2000'',
        dayData 0 ''B'' ''1'' ''1''] 259200 ''C'' = None
   \<and> (\<exists>r. mostRecentDayData [dayData 86400 ''A'' ''100'' ''1000'', dayData 172800 ''A'' ''100'' ''2000'',
        dayData 0 ''B'' ''1'' ''1''] 259200 ''A'' = Some r \<and> date r = 172800)
   \<and> mostRecentDayData [dayData 86400 ''A'' ''100'' ''1000'', dayData 172800 ''A'' ''100'' ''2000'',
        dayData 0 ''B'' ''1'' ''1''] 86400 ''A'' = Some (dayData 86400 ''A'' ''100'' ''1000'')"
proof -
  let ?recs = "[dayData 86400 ''A'' ''100'' ''1000'', dayData 172800 ''A'' ''100'' ''2000'',
        dayData 0 ''B'' ''1'' ''1'']"
  have fA: "filter (\<lambda>d. pairAddress d = ''A'') ?recs
      = [dayData 86400 ''A'' ''100'' ''1000'', dayData 172800 ''A'' ''100'' ''2000'']"
    by (simp add: dayData_def)
  have fC: "filter (\<lambda>d. pairAddress d = ''C'') ?recs = []"
    by (simp add: dayData_def)
  note sel = mostRecentDayData_selection [of "''C''" ?recs 259200 parseDecimal "[]"]
  have none: "mostRecentDayData ?recs 259200 ''C'' = None"
    using sel fC by simp
  note selA = mostRecentDayData_selection [of "''A''" ?recs 259200 parseDecimal "[]"]
  have "date (dayData 86400 ''A'' ''100'' ''1000'') < 259200" by (simp add: dayData_def)
  then obtain r where r: "mostRecentDayData ?recs 259200 ''A'' = Some r"
    and mem: "r \<in> set ?recs" and addr: "pairAddress r = ''A''" and below: "date r < 259200"
    and largest: "\<forall>d\<in>set ?recs. pairAddress d = ''A'' \<and> date d < 259200 \<longrightarrow> date d \<le> date r"
    using selA fA by blast
  have "date r = 172800"
    using mem addr largest by (auto simp add: dayData_def)
  then have some: "\<exists>r. mostRecentDayData ?recs 259200 ''A'' = Some r \<and> date r = 172800"
    using r by simp
  note selB = mostRecentDayData_selection [of "''A''" ?recs 86400 parseDecimal "[]"]
  have "\<forall>d\<in>set ?recs. pairAddress d = ''A'' \<longrightarrow> \<not> date d < 86400"
    by (simp add: dayData_def)
  then have first: "mostRecentDayData ?recs 86400 ''A'' = Some (dayData 86400 ''A'' ''100'' ''1000'')"
    using selB fA by blast
  show ?thesis using none some first by (intro conjI)
qed

text \<open>
  The claim as first stated fails on a pool whose only record is dated after the
  bucket: the record of day 5 values the pool on days 0, 1 and 2, where no
  record is dated strictly before, and the pool adds 100, not 0. With a record
  of day 1 behind it in the answer, the record of day 5 is still the one used
  for day 2.
\<close>

theorem later_record_counterexample:
  "mostRecentDayData [dayData 432000 ''A'' ''100'' ''1000''] 172800 ''A''
     = Some (dayData 432000 ''A'' ''100'' ''1000'')
   \<and> \<not> date (dayData 432000 ''A'' ''100'' ''1000'') < 172800
   \<and> useUserLiquidityChart parseDecimal (dayDataClient [dayData 432000 ''A'' ''100'' ''1000'']) 259200
        (Some [snap 100 ''A'' ''10'']) (Some 50)
      = Some (Inr [\<lparr>entry_date = 0, valueUSD = Num 100\<rparr>, \<lparr>entry_date = 86400, valueUSD = Num 100\<rparr>,
                   \<lparr>entry_date = 172800, valueUSD = Num 100\<rparr>])
   \<and> mostRecentDayData [dayData 432000 ''A'' ''100'' ''1000'', dayData 86400 ''A'' ''100'' ''2000'']
        172800 ''A''
     = Some (dayData 432000 ''A'' ''100'' ''1000'')
   \<and> date (dayData 86400 ''A'' ''100'' ''2000'') < 172800"
  by (simp add: chart_defs parseDecimal_digits)

end
